theory Spec2Isabelle
  imports Main "HOL-Library.Word" "HOL-Library.Multiset"
begin

section \<open>Data model\<close>

text \<open>
  Go strings are byte sequences and \<open>len\<close> counts bytes, so a Go \<open>string\<close> is a
  \<open>string\<close> here (a list of 8-bit characters). The records carry the fields of the
  \<open>models\<close> package that the services read or write; timestamps
  (\<open>LastModified\<close>, \<open>LastSyncedAt\<close>, \<open>StartTime\<close>, \<open>EndTime\<close>, \<open>Duration\<close>)
  come from the wall clock and are left out, as is the \<open>Size\<close> of a file change, which
  no function below reads. A \<open>map[string]string\<close> is an association list in the order
  of the literal that builds it. Of the configuration, the fields that the orchestrator
  reads are kept.
\<close>

record FileChange =
  Repository :: string
  FilePath :: string
  Content :: string
  CommitSHA :: string
  ChangeType :: string

record Config =
  Organization :: string
  AllowedExtensions :: "string list"
  ExcludePatterns :: "string list"
  MaxWorkers :: int

record Document =
  ID :: string
  DocRepository :: string
  DocFilePath :: string
  DocContent :: string
  ChunkIndex :: nat
  TotalChunks :: nat
  DocCommitSHA :: string
  DocMetadata :: "(string \<times> string) list"

text \<open>
  A Go call ends with a value, with an \<open>error\<close> (its message), or in a run-time panic
  (an index or slice bound out of range).
\<close>

datatype error = Err string | Panic

text \<open>
  The functions of Go's standard library whose results depend on Unicode tables or on a
  hash are parameters of the model: \<open>strings.TrimSpace\<close>, \<open>unicode.IsPrint\<close>,
  \<open>strings.Map\<close> and the hexadecimal MD5 digest of a string
  (\<open>fmt.Sprintf("%x", md5.Sum([]byte(s)))\<close>). Runes are integers.
\<close>

record golib =
  TrimSpace :: "string \<Rightarrow> string"
  IsPrint :: "int \<Rightarrow> bool"
  MapRunes :: "(int \<Rightarrow> int) \<Rightarrow> string \<Rightarrow> string"
  md5hex :: "string \<Rightarrow> string"

text \<open>
  An instance of the library for texts of 7-bit characters, where a rune is one byte:
  \<open>TrimSpace\<close> strips tab, line feed, vertical tab, form feed, carriage return and
  space from both ends, the printable runes are \<open>0x20\<close> to \<open>0x7E\<close>, and
  \<open>strings.Map\<close> drops the characters mapped to a negative value. The digest stays
  a parameter.
\<close>

definition asciiSpace :: "char \<Rightarrow> bool" where
  "asciiSpace c = (c \<in> set [CHR 0x09, CHR 0x0A, CHR 0x0B, CHR 0x0C, CHR 0x0D, CHR 0x20])"

definition asciiTrimSpace :: "string \<Rightarrow> string" where
  "asciiTrimSpace s = rev (dropWhile asciiSpace (rev (dropWhile asciiSpace s)))"

definition asciiMap :: "(int \<Rightarrow> int) \<Rightarrow> string \<Rightarrow> string" where
  "asciiMap f s = concat (map (\<lambda>c. let r = f (of_char c) in if r < 0 then [] else [char_of r]) s)"

definition asciiLib :: "(string \<Rightarrow> string) \<Rightarrow> golib" where
  "asciiLib h = \<lparr>TrimSpace = asciiTrimSpace, IsPrint = (\<lambda>r. 32 \<le> r \<and> r \<le> 126),
                 MapRunes = asciiMap, md5hex = h\<rparr>"

section \<open>Content filters\<close>

text \<open>
  The orchestrator's helper \<open>contains(s, substr)\<close>:
  \<^verbatim>\<open>len(s) >= len(substr) && s[:len(substr)] == substr\<close>.
\<close>

definition contains :: "string \<Rightarrow> string \<Rightarrow> bool" where
  "contains s substr = (length s \<ge> length substr \<and> take (length substr) s = substr)"

text \<open>
  The extension test of \<open>filterFiles\<close>:
  \<^verbatim>\<open>len(p) >= len(ext) && p[len(p)-len(ext):] == ext\<close>.
\<close>

definition hasExt :: "string \<Rightarrow> string \<Rightarrow> bool" where
  "hasExt p ext = (length p \<ge> length ext \<and> drop (length p - length ext) p = ext)"

text \<open>
  \<open>filterFiles\<close>: a file is kept when some allowed extension is a suffix of its path
  and no exclude pattern satisfies \<open>contains\<close>. The change kind is not read.
\<close>

definition fileValid :: "Config \<Rightarrow> FileChange \<Rightarrow> bool" where
  "fileValid cfg file =
     (list_ex (hasExt (FilePath file)) (AllowedExtensions cfg) \<and>
      \<not> list_ex (contains (FilePath file)) (ExcludePatterns cfg))"

fun filterFiles :: "Config \<Rightarrow> FileChange list \<Rightarrow> FileChange list" where
  "filterFiles cfg [] = []"
| "filterFiles cfg (file # files) =
     (if \<not> list_ex (hasExt (FilePath file)) (AllowedExtensions cfg) then filterFiles cfg files
      else if list_ex (contains (FilePath file)) (ExcludePatterns cfg) then filterFiles cfg files
      else file # filterFiles cfg files)"

text \<open>
  Go's \<open>strings.Contains\<close>: the pattern occurs at some offset of the string (the empty
  pattern occurs in every string).
\<close>

fun Contains :: "string \<Rightarrow> string \<Rightarrow> bool" where
  "Contains [] substr = (substr = [])"
| "Contains (c # cs) substr = (take (length substr) (c # cs) = substr \<or> Contains cs substr)"

text \<open>
  Go's \<open>filepath.Ext\<close> (separator \<open>/\<close>): scanning from the end of the path, the
  suffix starting at the first dot met before any separator; empty when a separator or the
  start of the path comes first. \<open>extScan\<close> scans the reversed path and collects the
  characters passed so far.
\<close>

fun extScan :: "string \<Rightarrow> string \<Rightarrow> string" where
  "extScan [] acc = []"
| "extScan (c # rest) acc =
     (if c = CHR ''/'' then []
      else if c = CHR ''.'' then c # acc
      else extScan rest (c # acc))"

definition Ext :: "string \<Rightarrow> string" where
  "Ext path = extScan (rev path) []"

text \<open>
  The document processor's \<open>ValidateDocument\<close>: extension by \<open>filepath.Ext\<close> against
  the allowed list (an empty list allows every extension), exclude patterns by
  \<open>strings.Contains\<close>, then the change kind.
\<close>

definition ValidateDocument :: "FileChange \<Rightarrow> string list \<Rightarrow> string list \<Rightarrow> bool" where
  "ValidateDocument fileChange allowedExtensions excludePatterns =
     (if length allowedExtensions > 0 \<and> \<not> list_ex (\<lambda>allowed. Ext (FilePath fileChange) = allowed) allowedExtensions
      then False
      else if list_ex (Contains (FilePath fileChange)) excludePatterns then False
      else if ChangeType fileChange = ''deleted'' \<or> ChangeType fileChange = ''removed'' then False
      else True)"

section \<open>Document processor: cleaning and chunking\<close>

text \<open>\<open>strings.Split(content, "\n")\<close>: the lines of the content; one empty line for
  the empty string.\<close>

fun splitNL :: "string \<Rightarrow> string list" where
  "splitNL [] = [[]]"
| "splitNL (c # cs) =
     (if c = CHR 0x0A then [] # splitNL cs
      else (case splitNL cs of [] \<Rightarrow> [[c]] | l # ls \<Rightarrow> (c # l) # ls))"

text \<open>\<open>strings.Join(lines, sep)\<close>.\<close>

fun Join :: "string list \<Rightarrow> string \<Rightarrow> string" where
  "Join [] sep = []"
| "Join [x] sep = x"
| "Join (x # y # ys) sep = x @ sep @ Join (y # ys) sep"

text \<open>The function given to \<open>strings.Map\<close>: a tab or a printable rune is kept, any
  other rune is mapped to \<open>-1\<close> (dropped).\<close>

definition keepRune :: "golib \<Rightarrow> int \<Rightarrow> int" where
  "keepRune lib r = (if r = 9 \<or> IsPrint lib r then r else - 1)"

text \<open>
  The loop of \<open>CleanContent\<close> over the lines: trim, skip the line when the trimmed
  line is empty, then strip the control characters and append.
\<close>

fun cleanLines :: "golib \<Rightarrow> string list \<Rightarrow> string list" where
  "cleanLines lib [] = []"
| "cleanLines lib (line # lines) =
     (let line' = TrimSpace lib line
      in if length line' = 0 then cleanLines lib lines
         else MapRunes lib (keepRune lib) line' # cleanLines lib lines)"

definition CleanContent :: "golib \<Rightarrow> string \<Rightarrow> string" where
  "CleanContent lib content = Join (cleanLines lib (splitNL content)) [CHR 0x0A]"

text \<open>
  Go's \<open>int\<close> is 64 bits wide and wraps around; \<open>/\<close> truncates towards zero.
  \<open>slice s lo hi\<close> is \<open>s[lo:hi]\<close> for \<open>0 \<le> lo \<le> hi \<le> len(s)\<close>; the callers test
  the bounds and panic outside them, as Go does.
\<close>

definition wrap64 :: "int \<Rightarrow> int" where
  "wrap64 x = (x + 2 ^ 63) mod 2 ^ 64 - 2 ^ 63"

definition quot :: "int \<Rightarrow> int \<Rightarrow> int" where
  "quot a b = sgn a * sgn b * (\<bar>a\<bar> div \<bar>b\<bar>)"

definition slice :: "'a list \<Rightarrow> int \<Rightarrow> int \<Rightarrow> 'a list" where
  "slice s lo hi = take (nat (hi - lo)) (drop (nat lo) s)"

text \<open>\<open>strings.LastIndexAny(s, chars)\<close> for 7-bit \<open>chars\<close>: the index of the last
  byte of \<open>s\<close> that is one of \<open>chars\<close>, or \<open>-1\<close>.\<close>

definition LastIndexAny :: "string \<Rightarrow> string \<Rightarrow> int" where
  "LastIndexAny s chars =
     (let hits = filter (\<lambda>i. s ! i \<in> set chars) [0..<length s]
      in if hits = [] then - 1 else int (last hits))"

definition sentenceEnds :: string where
  "sentenceEnds = [CHR ''.'', CHR ''!'', CHR ''?'', CHR 0x0A]"

text \<open>
  The loop of \<open>splitIntoChunks\<close>, one call per iteration, with the loop variables
  \<open>start\<close> and \<open>chunks\<close> as arguments. The result is \<open>None\<close> when the loop runs
  forever, \<open>Some (Inl Panic)\<close> when \<open>text[start:end]\<close> is taken with
  \<open>end < start\<close>, and \<open>Some (Inr chunks)\<close> when the loop ends.
\<close>

partial_function (option) splitLoop ::
  "golib \<Rightarrow> string \<Rightarrow> int \<Rightarrow> int \<Rightarrow> int \<Rightarrow> string list \<Rightarrow> (error + string list) option" where
  "splitLoop lib text maxSize overlap start chunks =
     (if start < int (length text) then
        (let textLen = int (length text);
             end0 = wrap64 (start + maxSize);
             end1 = (if end0 > textLen then textLen else end0)
         in if end1 < start then Some (Inl Panic)
            else
              (let end2 = (if end1 < textLen
                           then (let lastPeriod = LastIndexAny (slice text start end1) sentenceEnds
                                 in if lastPeriod > quot maxSize 2 then start + lastPeriod + 1 else end1)
                           else end1);
                   chunk = TrimSpace lib (slice text start end2);
                   chunks' = (if length chunk > 0 then chunks @ [chunk] else chunks);
                   start0 = wrap64 (end2 - overlap);
                   start' = (if start0 < 0 then 0 else start0)
               in splitLoop lib text maxSize overlap start' chunks'))
      else Some (Inr chunks))"

declare splitLoop.simps [code]

definition splitIntoChunks :: "golib \<Rightarrow> string \<Rightarrow> int \<Rightarrow> int \<Rightarrow> (error + string list) option" where
  "splitIntoChunks lib text maxSize overlap = splitLoop lib text maxSize overlap 0 []"

text \<open>\<open>fmt.Sprintf("%d", n)\<close> for a non-negative \<open>n\<close>.\<close>

function digits :: "nat \<Rightarrow> string" where
  "digits n = (if n < 10 then [char_of (48 + n)] else digits (n div 10) @ [char_of (48 + n mod 10)])"
  by pat_completeness auto
termination
  by (relation "measure id") auto

text \<open>The chunk identifier: the digest of \<open>"%s-%s-%d"\<close> over repository, path and
  ordinal.\<close>

definition docID :: "golib \<Rightarrow> string \<Rightarrow> string \<Rightarrow> nat \<Rightarrow> string" where
  "docID lib repository path i = md5hex lib (repository @ ''-'' @ path @ ''-'' @ digits i)"

definition mkDocument :: "golib \<Rightarrow> FileChange \<Rightarrow> nat \<Rightarrow> nat \<Rightarrow> string \<Rightarrow> Document" where
  "mkDocument lib fileChange totalChunks i chunk =
     \<lparr>ID = docID lib (Repository fileChange) (FilePath fileChange) i,
      DocRepository = Repository fileChange,
      DocFilePath = FilePath fileChange,
      DocContent = chunk,
      ChunkIndex = i,
      TotalChunks = totalChunks,
      DocCommitSHA = CommitSHA fileChange,
      DocMetadata =
        [(''repository'', Repository fileChange),
         (''file_path'', FilePath fileChange),
         (''commit_sha'', CommitSHA fileChange),
         (''chunk_index'', digits i),
         (''total_chunks'', digits totalChunks),
         (''file_ext'', Ext (FilePath fileChange))]\<rparr>"

text \<open>The loop \<open>for i, chunk := range chunks\<close> of \<open>ChunkDocument\<close>.\<close>

definition makeDocuments :: "golib \<Rightarrow> FileChange \<Rightarrow> string list \<Rightarrow> Document list" where
  "makeDocuments lib fileChange chunks =
     map (\<lambda>(i, chunk). mkDocument lib fileChange (length chunks) i chunk) (enumerate 0 chunks)"

definition ChunkDocument ::
  "golib \<Rightarrow> FileChange \<Rightarrow> int \<Rightarrow> int \<Rightarrow> (error + Document list) option" where
  "ChunkDocument lib fileChange maxSize overlap =
     (let content = CleanContent lib (Content fileChange)
      in if length content = 0 then Some (Inr [])
         else
           (case (if int (length content) \<le> maxSize then Some (Inr [content])
                  else splitIntoChunks lib content maxSize overlap) of
              None \<Rightarrow> None
            | Some (Inl e) \<Rightarrow> Some (Inl e)
            | Some (Inr chunks) \<Rightarrow> Some (Inr (makeDocuments lib fileChange chunks))))"



section \<open>Orchestrator\<close>

text \<open>
  The remaining records of the \<open>models\<close> package. A vector is a list of 32-bit
  floats, carried as bit patterns: the orchestrator never computes with them. Fields of
  different Go structs that share a name are told apart by a prefix.
\<close>

type_synonym float32 = "32 word"

record Repo =
  FullName :: string

record Embedding =
  EmbID :: string
  Vector :: "float32 list"
  EmbMetadata :: "(string \<times> string) list"
  EmbRepository :: string
  EmbFilePath :: string
  Namespace :: string

record SyncMetadata =
  ProjectID :: string
  MetaRepository :: string
  MetaFilePath :: string
  LastCommitSHA :: string
  EmbeddingCount :: nat
  Status :: string

record SyncResult =
  ResProjectID :: string
  Success :: bool
  Errors :: "string list"
  Warnings :: "string list"
  RepositoriesScanned :: nat
  FilesDiscovered :: nat
  FilesChanged :: nat
  FilesProcessed :: nat
  ChunksCreated :: nat
  EmbeddingsGenerated :: nat
  VectorsUpserted :: nat

text \<open>
  What a run does to the outside is recorded as a trace: the requests the orchestrator
  sends (\<open>GET /repositories\<close>, \<open>GET /metadata\<close>, \<open>GET /changes\<close>,
  \<open>POST /chunk\<close>, \<open>POST /embed\<close>, \<open>POST /upsert\<close>, \<open>POST /metadata\<close>,
  \<open>POST /notify\<close>), the two removing operations that the interfaces \<open>VectorStore\<close>
  and \<open>MetadataStore\<close> declare (\<open>DeleteVectors\<close>, \<open>DeleteSyncMetadata\<close>), and
  the calls of \<open>logger.Warning\<close>, each with its formatted message; what such a call
  writes depends on the logger and is computed by \<open>written\<close> below. The notification
  carries its type and the result; its title and message are derived from them and from
  the clock.
\<close>

datatype effect =
    ListRepositories
  | GetMetadata string string
  | GetChanges string string
  | Chunk FileChange
  | Embed "string list"
  | Upsert "Embedding list"
  | SaveMetadata SyncMetadata
  | Notify string SyncResult
  | DeleteVectors "string list" string
  | DeleteSyncMetadata string string string
  | LogWarning string

text \<open>
  The collaborating services answer each request with an error message (the transport
  failed, or the body did not decode) or with a value; an answer is a function of the
  request. The answers to \<open>POST /metadata\<close> and \<open>POST /notify\<close> are discarded by the
  orchestrator and are no parameter.
\<close>

record services =
  listRepos :: "string + Repo list"
  getLast :: "string \<Rightarrow> string \<Rightarrow> string + string"
  getChanges :: "string \<Rightarrow> string \<Rightarrow> string + FileChange list"
  chunkSvc :: "FileChange \<Rightarrow> string + Document list"
  embedSvc :: "string list \<Rightarrow> string + float32 list list"
  upsertSvc :: "Embedding list \<Rightarrow> string option"

definition mkEmbedding :: "Config \<Rightarrow> Document \<Rightarrow> float32 list \<Rightarrow> Embedding" where
  "mkEmbedding cfg doc v =
     \<lparr>EmbID = ID doc, Vector = v, EmbMetadata = DocMetadata doc,
      EmbRepository = DocRepository doc, EmbFilePath = DocFilePath doc,
      Namespace = Organization cfg\<rparr>"

text \<open>
  The last loop of \<open>generateEmbeddings\<close>, \<open>for i, doc := range documents\<close>, reads
  \<open>result.Embeddings[i]\<close>: an index beyond the answer is a panic.
\<close>

fun createEmbeddings ::
  "Config \<Rightarrow> float32 list list \<Rightarrow> nat \<Rightarrow> Document list \<Rightarrow> error + Embedding list" where
  "createEmbeddings cfg vectors i [] = Inr []"
| "createEmbeddings cfg vectors i (doc # docs) =
     (if i < length vectors
      then (case createEmbeddings cfg vectors (Suc i) docs of
              Inl e \<Rightarrow> Inl e
            | Inr embeddings \<Rightarrow> Inr (mkEmbedding cfg doc (vectors ! i) # embeddings))
      else Inl Panic)"

definition generateEmbeddings ::
  "services \<Rightarrow> Config \<Rightarrow> Document list \<Rightarrow> (error + Embedding list) \<times> effect list" where
  "generateEmbeddings sv cfg documents =
     (if length documents = 0 then (Inr [], [])
      else
        (let texts = map DocContent documents
         in case embedSvc sv texts of
              Inl e \<Rightarrow> (Inl (Err e), [Embed texts])
            | Inr vectors \<Rightarrow> (createEmbeddings cfg vectors 0 documents, [Embed texts])))"

text \<open>
  The body of one goroutine of \<open>processBatch\<close>: chunk, then embed; a failure of either
  is passed to \<open>logger.Warning\<close> and the file contributes nothing. A panic ends the
  process.
\<close>

definition processFile ::
  "services \<Rightarrow> Config \<Rightarrow> FileChange \<Rightarrow> (error + Embedding list \<times> nat) \<times> effect list" where
  "processFile sv cfg f =
     (case chunkSvc sv f of
        Inl e \<Rightarrow>
          (Inr ([], 0),
           [Chunk f, LogWarning (''Failed to chunk document '' @ FilePath f @ '': '' @ e)])
      | Inr documents \<Rightarrow>
          (case generateEmbeddings sv cfg documents of
             (Inl (Err e), tr) \<Rightarrow>
               (Inr ([], 0),
                Chunk f # tr @
                [LogWarning (''Failed to generate embeddings for '' @ FilePath f @ '': '' @ e)])
           | (Inl Panic, tr) \<Rightarrow> (Inl Panic, Chunk f # tr)
           | (Inr embeddings, tr) \<Rightarrow> (Inr (embeddings, length documents), Chunk f # tr)))"

text \<open>
  \<open>processBatch\<close> starts one goroutine per file and appends their embeddings under a
  mutex in the order in which they finish. The model runs them one after the other in
  the order of the batch. What is proved below of the embeddings and of the warnings
  of a run is stated for multisets, which are the same for every order of a batch
  (\<open>processBatch_order_independent\<close>).
\<close>

fun processBatch ::
  "services \<Rightarrow> Config \<Rightarrow> FileChange list \<Rightarrow> (error + Embedding list \<times> nat) \<times> effect list" where
  "processBatch sv cfg [] = (Inr ([], 0), [])"
| "processBatch sv cfg (f # files) =
     (case processFile sv cfg f of
        (Inl e, tr) \<Rightarrow> (Inl e, tr)
      | (Inr (embeddings, chunks), tr) \<Rightarrow>
          (case processBatch sv cfg files of
             (Inl e, tr') \<Rightarrow> (Inl e, tr @ tr')
           | (Inr (allEmbeddings, totalChunks), tr') \<Rightarrow>
               (Inr (embeddings @ allEmbeddings, chunks + totalChunks), tr @ tr')))"

text \<open>
  The loop of \<open>processFiles\<close>, \<open>for i := 0; i < len(files); i += batchSize\<close>, with the
  loop variables as arguments. \<open>None\<close> when the loop runs forever (a batch size of
  zero), a panic when \<open>files[i:end]\<close> has \<open>end < i\<close> (a negative batch size).
\<close>

partial_function (option) processFilesLoop ::
  "services \<Rightarrow> Config \<Rightarrow> FileChange list \<Rightarrow> int \<Rightarrow> Embedding list \<Rightarrow> nat \<Rightarrow> effect list
     \<Rightarrow> ((error + Embedding list \<times> nat) \<times> effect list) option" where
  "processFilesLoop sv cfg files i allEmbeddings totalChunks tr =
     (if i < int (length files) then
        (let batchSize = MaxWorkers cfg;
             end0 = wrap64 (i + batchSize);
             end1 = (if end0 > int (length files) then int (length files) else end0)
         in if end1 < i then Some (Inl Panic, tr)
            else
              (case processBatch sv cfg (slice files i end1) of
                 (Inl e, tr') \<Rightarrow> Some (Inl e, tr @ tr')
               | (Inr (embeddings, chunks), tr') \<Rightarrow>
                   processFilesLoop sv cfg files (wrap64 (i + batchSize))
                     (allEmbeddings @ embeddings) (totalChunks + chunks) (tr @ tr')))
      else Some (Inr (allEmbeddings, totalChunks), tr))"

declare processFilesLoop.simps [code]

definition processFiles ::
  "services \<Rightarrow> Config \<Rightarrow> FileChange list \<Rightarrow> ((error + Embedding list \<times> nat) \<times> effect list) option" where
  "processFiles sv cfg files = processFilesLoop sv cfg files 0 [] 0 []"

text \<open>
  Step 2 of \<open>SyncProject\<close>, the loop over the repositories: the last commit is asked
  for only in an incremental run and its error is dropped; a failed diff adds a warning
  to the result and the repository is skipped. The result is the changed files, the
  warnings and the trace.
\<close>

fun diffRepos ::
  "services \<Rightarrow> string \<Rightarrow> bool \<Rightarrow> Repo list \<Rightarrow> FileChange list \<times> string list \<times> effect list" where
  "diffRepos sv projectID incremental [] = ([], [], [])"
| "diffRepos sv projectID incremental (repo # repos) =
     (let lastCommitSHA =
            (if incremental
             then (case getLast sv projectID (FullName repo) of Inl e \<Rightarrow> [] | Inr sha \<Rightarrow> sha)
             else []);
          tr1 = (if incremental then [GetMetadata projectID (FullName repo)] else [])
            @ [GetChanges (FullName repo) lastCommitSHA];
          (allChangedFiles, warnings, tr) = diffRepos sv projectID incremental repos
      in case getChanges sv (FullName repo) lastCommitSHA of
           Inl e \<Rightarrow>
             (allChangedFiles,
              (''Failed to get changed files for '' @ FullName repo @ '': '' @ e) # warnings,
              tr1 @ tr)
         | Inr changedFiles \<Rightarrow> (changedFiles @ allChangedFiles, warnings, tr1 @ tr))"

text \<open>The checkpoint row that step 6 posts for a file.\<close>

definition mkMetadata :: "string \<Rightarrow> FileChange \<Rightarrow> SyncMetadata" where
  "mkMetadata projectID file =
     \<lparr>ProjectID = projectID, MetaRepository = Repository file, MetaFilePath = FilePath file,
      LastCommitSHA = CommitSHA file, EmbeddingCount = 0, Status = ''synced''\<rparr>"

text \<open>
  \<open>SyncProject\<close>. The value is \<open>None\<close> when the run does not return; otherwise the
  outcome (a panic, or the result with the returned error) and the trace of the run.
\<close>

definition SyncProject ::
  "services \<Rightarrow> Config \<Rightarrow> string \<Rightarrow> bool
     \<Rightarrow> ((error + SyncResult \<times> string option) \<times> effect list) option" where
  "SyncProject sv cfg projectID incremental =
     (let result = \<lparr>ResProjectID = projectID, Success = False, Errors = [], Warnings = [],
                    RepositoriesScanned = 0, FilesDiscovered = 0, FilesChanged = 0,
                    FilesProcessed = 0, ChunksCreated = 0, EmbeddingsGenerated = 0,
                    VectorsUpserted = 0\<rparr>
      in case listRepos sv of
           Inl e \<Rightarrow>
             (let result = result\<lparr>Errors := Errors result @ [''Failed to discover repositories: '' @ e]\<rparr>
              in Some (Inr (result, Some e), [ListRepositories, Notify ''error'' result]))
         | Inr repos \<Rightarrow>
             (let result = result\<lparr>RepositoriesScanned := length repos\<rparr>;
                  (allChangedFiles, warnings, tr2) = diffRepos sv projectID incremental repos;
                  result = result\<lparr>Warnings := Warnings result @ warnings,
                                  FilesDiscovered := length allChangedFiles,
                                  FilesChanged := length allChangedFiles\<rparr>;
                  validFiles = filterFiles cfg allChangedFiles;
                  result = result\<lparr>FilesProcessed := length validFiles\<rparr>
              in case processFiles sv cfg validFiles of
                   None \<Rightarrow> None
                 | Some (Inl Panic, tr4) \<Rightarrow> Some (Inl Panic, ListRepositories # tr2 @ tr4)
                 | Some (Inl (Err e), tr4) \<Rightarrow>
                     (let result = result\<lparr>Errors := Errors result @ [''Failed to process files: '' @ e]\<rparr>
                      in Some (Inr (result, Some e),
                               ListRepositories # tr2 @ tr4 @ [Notify ''error'' result]))
                 | Some (Inr (embeddings, chunks), tr4) \<Rightarrow>
                     (let result = result\<lparr>ChunksCreated := chunks,
                                          EmbeddingsGenerated := length embeddings\<rparr>;
                          upserted = (if length embeddings > 0 then upsertSvc sv embeddings else None);
                          tr5 = (if length embeddings > 0 then [Upsert embeddings] else [])
                      in case upserted of
                           Some e \<Rightarrow>
                             (let result = result\<lparr>Errors := Errors result @ [''Failed to upsert vectors: '' @ e]\<rparr>
                              in Some (Inr (result, Some e),
                                       ListRepositories # tr2 @ tr4 @ tr5 @ [Notify ''error'' result]))
                         | None \<Rightarrow>
                             (let result = (if length embeddings > 0
                                            then result\<lparr>VectorsUpserted := length embeddings\<rparr>
                                            else result);
                                  tr6 = map (\<lambda>file. SaveMetadata (mkMetadata projectID file)) validFiles;
                                  result = result\<lparr>Success := True\<rparr>
                              in Some (Inr (result, None),
                                       ListRepositories # tr2 @ tr4 @ tr5 @ tr6 @ [Notify ''success'' result])))))"

subsection \<open>Reading a trace\<close>

fun isDelete :: "effect \<Rightarrow> bool" where
  "isDelete (DeleteVectors ids namespace) = True"
| "isDelete (DeleteSyncMetadata projectID repository path) = True"
| "isDelete e = False"

fun isWarning :: "effect \<Rightarrow> bool" where
  "isWarning (LogWarning m) = True"
| "isWarning e = False"

fun isSave :: "effect \<Rightarrow> bool" where
  "isSave (SaveMetadata m) = True"
| "isSave e = False"

fun isUpsert :: "effect \<Rightarrow> bool" where
  "isUpsert (Upsert embeddings) = True"
| "isUpsert e = False"

text \<open>The requests and warning calls of the diffing and processing phases.\<close>

fun isWork :: "effect \<Rightarrow> bool" where
  "isWork (GetMetadata projectID repository) = True"
| "isWork (GetChanges repository sha) = True"
| "isWork (Chunk f) = True"
| "isWork (Embed texts) = True"
| "isWork (LogWarning m) = True"
| "isWork e = False"

text \<open>
  A file fails in processing when the chunk request fails, or when it has chunks and the
  embed request for them fails; \<open>fileWarning\<close> is the call of \<open>logger.Warning\<close> for that failure.
  \<open>fileChunks\<close> is the number of chunks the chunker returns for a file, and
  \<open>diffWarning\<close> the entry that a failed diff of a repository adds to
  \<open>Warnings\<close>.
\<close>

definition fileWarning :: "services \<Rightarrow> FileChange \<Rightarrow> effect option" where
  "fileWarning sv f =
     (case chunkSvc sv f of
        Inl e \<Rightarrow> Some (LogWarning (''Failed to chunk document '' @ FilePath f @ '': '' @ e))
      | Inr documents \<Rightarrow>
          (if documents = [] then None
           else (case embedSvc sv (map DocContent documents) of
                   Inl e \<Rightarrow> Some (LogWarning (''Failed to generate embeddings for '' @ FilePath f @ '': '' @ e))
                 | Inr vectors \<Rightarrow> None)))"

definition fileChunks :: "services \<Rightarrow> FileChange \<Rightarrow> nat" where
  "fileChunks sv f = (case chunkSvc sv f of Inl e \<Rightarrow> 0 | Inr documents \<Rightarrow> length documents)"

definition diffWarning :: "services \<Rightarrow> string \<Rightarrow> bool \<Rightarrow> Repo \<Rightarrow> string option" where
  "diffWarning sv projectID incremental repo =
     (case getChanges sv (FullName repo)
             (if incremental
              then (case getLast sv projectID (FullName repo) of Inl e \<Rightarrow> [] | Inr sha \<Rightarrow> sha)
              else []) of
        Inl e \<Rightarrow> Some (''Failed to get changed files for '' @ FullName repo @ '': '' @ e)
      | Inr changedFiles \<Rightarrow> None)"

text \<open>
  The package \<open>logger\<close>: the levels in the order of their constants, the default logger
  (unset until \<open>Init\<close> is called) with its level and prefix, and what \<open>log\<close> writes:
  nothing for a level below the logger's, otherwise one line with the level, the prefix
  when there is one, and the message. The time stamp that starts the line is left out.
  \<open>written\<close> is what the calls of \<open>logger.Warning\<close> in a trace write.
\<close>

datatype LogLevel = DEBUG | INFO | WARNING | ERROR

fun levelNum :: "LogLevel \<Rightarrow> nat" where
  "levelNum DEBUG = 0"
| "levelNum INFO = 1"
| "levelNum WARNING = 2"
| "levelNum ERROR = 3"

fun levelString :: "LogLevel \<Rightarrow> string" where
  "levelString DEBUG = ''DEBUG''"
| "levelString INFO = ''INFO''"
| "levelString WARNING = ''WARN''"
| "levelString ERROR = ''ERROR''"

record Logger =
  logLevel :: LogLevel
  logPrefix :: string

definition logWrite :: "Logger \<Rightarrow> LogLevel \<Rightarrow> string \<Rightarrow> string list" where
  "logWrite l lvl message =
     (if levelNum lvl < levelNum (logLevel l) then []
      else if logPrefix l \<noteq> []
           then [''[''  @ levelString lvl @ ''] ['' @ logPrefix l @ ''] '' @ message @ [CHR 0x0A]]
           else [''['' @ levelString lvl @ ''] '' @ message @ [CHR 0x0A]])"

definition Warning :: "Logger option \<Rightarrow> string \<Rightarrow> string list" where
  "Warning defaultLogger message =
     (case defaultLogger of None \<Rightarrow> [] | Some l \<Rightarrow> logWrite l WARNING message)"

fun written :: "Logger option \<Rightarrow> effect list \<Rightarrow> string list" where
  "written defaultLogger [] = []"
| "written defaultLogger (LogWarning message # tr) = Warning defaultLogger message @ written defaultLogger tr"
| "written defaultLogger (e # tr) = written defaultLogger tr"

text \<open>
  The embeddings that the answers of the services give for a file: none when the chunk
  request or the embed request fails, otherwise one for each chunk that has a vector,
  built from the chunk and its vector.
\<close>

definition fileEmbeddings :: "services \<Rightarrow> Config \<Rightarrow> FileChange \<Rightarrow> Embedding list" where
  "fileEmbeddings sv cfg f =
     (case chunkSvc sv f of
        Inl e \<Rightarrow> []
      | Inr documents \<Rightarrow>
          (case embedSvc sv (map DocContent documents) of
             Inl e \<Rightarrow> []
           | Inr vectors \<Rightarrow> map (\<lambda>(doc, v). mkEmbedding cfg doc v) (zip documents vectors)))"

subsection \<open>Example runs\<close>

text \<open>
  One repository with two changed Go files. The chunk service is the document processor
  with its configured defaults (\<open>MAX_CHUNK_SIZE = 1000\<close>, \<open>CHUNK_OVERLAP = 200\<close>); the
  embedding service returns one vector per text. In \<open>exServices\<close> it fails on the text
  of \<open>b.go\<close>, in \<open>exServicesDown\<close> on every request; in \<open>exServicesRemoval\<close> the
  change detector reports \<open>old.go\<close> as removed, without content.
\<close>

definition chunkerService :: "golib \<Rightarrow> FileChange \<Rightarrow> string + Document list" where
  "chunkerService lib f =
     (case ChunkDocument lib f 1000 200 of
        Some (Inr documents) \<Rightarrow> Inr documents
      | _ \<Rightarrow> Inl ''chunk request failed'')"

definition exCfg :: Config where
  "exCfg = \<lparr>Organization = ''org'', AllowedExtensions = [''.go''],
            ExcludePatterns = [''vendor''], MaxWorkers = 5\<rparr>"

definition exA :: FileChange where
  "exA = \<lparr>Repository = ''org/r'', FilePath = ''a.go'', Content = ''package a'',
          CommitSHA = ''c2'', ChangeType = ''modified''\<rparr>"

definition exB :: FileChange where
  "exB = \<lparr>Repository = ''org/r'', FilePath = ''b.go'', Content = ''package b'',
          CommitSHA = ''c2'', ChangeType = ''modified''\<rparr>"

definition exRemoved :: FileChange where
  "exRemoved = \<lparr>Repository = ''org/r'', FilePath = ''old.go'', Content = [],
                CommitSHA = ''c2'', ChangeType = ''removed''\<rparr>"

definition exServices :: services where
  "exServices = \<lparr>listRepos = Inr [\<lparr>FullName = ''org/r''\<rparr>],
     getLast = (\<lambda>p r. Inr ''c1''),
     getChanges = (\<lambda>r l. Inr [exA, exB]),
     chunkSvc = chunkerService (asciiLib (\<lambda>s. s)),
     embedSvc = (\<lambda>texts. if texts = [''package b''] then Inl ''embedding failed''
                         else Inr (map (\<lambda>t. [of_nat (length t)]) texts)),
     upsertSvc = (\<lambda>es. None)\<rparr>"

definition exServicesDown :: services where
  "exServicesDown = exServices\<lparr>embedSvc := (\<lambda>texts. Inl ''embedding failed'')\<rparr>"

definition exServicesRemoval :: services where
  "exServicesRemoval = exServices\<lparr>getChanges := (\<lambda>r l. Inr [exRemoved, exA])\<rparr>"

definition exEmbeddingA :: Embedding where
  "exEmbeddingA = \<lparr>EmbID = ''org/r-a.go-0'', Vector = [9],
     EmbMetadata = [(''repository'', ''org/r''), (''file_path'', ''a.go''), (''commit_sha'', ''c2''),
                    (''chunk_index'', ''0''), (''total_chunks'', ''1''), (''file_ext'', ''.go'')],
     EmbRepository = ''org/r'', EmbFilePath = ''a.go'', Namespace = ''org''\<rparr>"

definition exResult :: "nat \<Rightarrow> SyncResult" where
  "exResult n = \<lparr>ResProjectID = ''p'', Success = True, Errors = [], Warnings = [],
     RepositoriesScanned = 1, FilesDiscovered = 2, FilesChanged = 2, FilesProcessed = 2,
     ChunksCreated = n, EmbeddingsGenerated = n, VectorsUpserted = n\<rparr>"

definition exTracePartial :: "effect list" where
  "exTracePartial =
     [ListRepositories, GetMetadata ''p'' ''org/r'', GetChanges ''org/r'' ''c1'',
      Chunk exA, Embed [''package a''],
      Chunk exB, Embed [''package b''],
      LogWarning ''Failed to generate embeddings for b.go: embedding failed'',
      Upsert [exEmbeddingA],
      SaveMetadata (mkMetadata ''p'' exA), SaveMetadata (mkMetadata ''p'' exB),
      Notify ''success'' (exResult 1)]"

definition exTraceDown :: "effect list" where
  "exTraceDown =
     [ListRepositories, GetMetadata ''p'' ''org/r'', GetChanges ''org/r'' ''c1'',
      Chunk exA, Embed [''package a''],
      LogWarning ''Failed to generate embeddings for a.go: embedding failed'',
      Chunk exB, Embed [''package b''],
      LogWarning ''Failed to generate embeddings for b.go: embedding failed'',
      SaveMetadata (mkMetadata ''p'' exA), SaveMetadata (mkMetadata ''p'' exB),
      Notify ''success'' (exResult 0)]"

definition exTraceRemoval :: "effect list" where
  "exTraceRemoval =
     [ListRepositories, GetMetadata ''p'' ''org/r'', GetChanges ''org/r'' ''c1'',
      Chunk exRemoved, Chunk exA, Embed [''package a''],
      Upsert [exEmbeddingA],
      SaveMetadata (mkMetadata ''p'' exRemoved), SaveMetadata (mkMetadata ''p'' exA),
      Notify ''success'' (exResult 1)]"

definition exDocs :: "Document list" where
  "exDocs = makeDocuments (asciiLib (\<lambda>s. s)) exA [''package'', ''a'']"

definition exLogger :: "Logger option" where
  "exLogger = Some \<lparr>logLevel = INFO, logPrefix = ''orchestrator''\<rparr>"

definition exLoggerQuiet :: "Logger option" where
  "exLoggerQuiet = Some \<lparr>logLevel = ERROR, logPrefix = ''orchestrator''\<rparr>"

section \<open>Properties of the filters\<close>

lemma filterFiles_filter: "filterFiles cfg files = filter (fileValid cfg) files"
  by (induction files) (simp_all add: fileValid_def)

text \<open>
  What the tests compute: \<open>hasExt\<close> is the suffix test, the orchestrator's
  \<open>contains\<close> is the prefix test, and \<open>strings.Contains\<close> holds when the pattern
  occurs anywhere.
\<close>

lemma hasExt_iff: "hasExt p ext \<longleftrightarrow> (\<exists>pre. p = pre @ ext)"
proof
  assume "hasExt p ext"
  then have "p = take (length p - length ext) p @ ext"
    by (metis append_take_drop_id hasExt_def)
  then show "\<exists>pre. p = pre @ ext" ..
next
  assume "\<exists>pre. p = pre @ ext"
  then show "hasExt p ext" by (auto simp: hasExt_def)
qed

lemma contains_iff: "contains s substr \<longleftrightarrow> (\<exists>rest. s = substr @ rest)"
proof
  assume "contains s substr"
  then have "s = substr @ drop (length substr) s"
    by (metis append_take_drop_id contains_def)
  then show "\<exists>rest. s = substr @ rest" ..
next
  assume "\<exists>rest. s = substr @ rest"
  then show "contains s substr" by (auto simp: contains_def)
qed

lemma Contains_iff: "Contains s substr \<longleftrightarrow> (\<exists>pre post. s = pre @ substr @ post)"
proof (induction s)
  case Nil
  then show ?case by auto
next
  case (Cons c cs)
  have "take (length substr) (c # cs) = substr \<longleftrightarrow> (\<exists>post. c # cs = substr @ post)"
    by (metis append_eq_conv_conj append_take_drop_id)
  moreover have "(\<exists>pre post. c # cs = pre @ substr @ post) \<longleftrightarrow>
        (\<exists>post. c # cs = substr @ post) \<or> (\<exists>pre post. cs = pre @ substr @ post)"
  proof
    assume "\<exists>pre post. c # cs = pre @ substr @ post"
    then obtain pre post where e: "c # cs = pre @ substr @ post" by blast
    show "(\<exists>post. c # cs = substr @ post) \<or> (\<exists>pre post. cs = pre @ substr @ post)"
    proof (cases pre)
      case Nil
      with e show ?thesis by auto
    next
      case (Cons a pre')
      with e have "cs = pre' @ substr @ post" by simp
      then show ?thesis by blast
    qed
  next
    assume "(\<exists>post. c # cs = substr @ post) \<or> (\<exists>pre post. cs = pre @ substr @ post)"
    then show "\<exists>pre post. c # cs = pre @ substr @ post"
    proof
      assume "\<exists>post. c # cs = substr @ post"
      then obtain post where "c # cs = [] @ substr @ post" by auto
      then show ?thesis by blast
    next
      assume "\<exists>pre post. cs = pre @ substr @ post"
      then obtain pre post where "c # cs = (c # pre) @ substr @ post" by auto
      then show ?thesis by blast
    qed
  qed
  ultimately show ?case using Cons.IH by simp
qed

lemma filterFiles_kept:
  "f \<in> set (filterFiles cfg files) \<longleftrightarrow>
     f \<in> set files
   \<and> (\<exists>ext \<in> set (AllowedExtensions cfg). \<exists>pre. FilePath f = pre @ ext)
   \<and> \<not> (\<exists>pattern \<in> set (ExcludePatterns cfg). \<exists>rest. FilePath f = pattern @ rest)"
  by (auto simp: filterFiles_filter fileValid_def list_ex_iff hasExt_iff contains_iff)

text \<open>
  C9. With an empty allowed-extension list the orchestrator's \<open>filterFiles\<close> returns the
  empty list for every input, while \<open>ValidateDocument\<close> with an empty allowed list
  accepts a file whatever its extension: its answer is decided by the exclude patterns
  and the change kind alone. So the two filters disagree, for one on the file \<open>a.go\<close>.
\<close>

theorem C9_empty_allowlist_disagree:
  "filterFiles (cfg\<lparr>AllowedExtensions := []\<rparr>) files = []
   \<and> ValidateDocument f [] excludePatterns =
       (\<not> list_ex (Contains (FilePath f)) excludePatterns
        \<and> ChangeType f \<noteq> ''deleted'' \<and> ChangeType f \<noteq> ''removed'')
   \<and> ValidateDocument exA [] (ExcludePatterns exCfg)
   \<and> filterFiles (exCfg\<lparr>AllowedExtensions := []\<rparr>) [exA] = []"
proof (intro conjI)
  show "filterFiles (cfg\<lparr>AllowedExtensions := []\<rparr>) files = []"
    by (simp add: filterFiles_filter fileValid_def)
  show "ValidateDocument f [] excludePatterns =
       (\<not> list_ex (Contains (FilePath f)) excludePatterns
        \<and> ChangeType f \<noteq> ''deleted'' \<and> ChangeType f \<noteq> ''removed'')"
    by (simp add: ValidateDocument_def)
  show "ValidateDocument exA [] (ExcludePatterns exCfg)"
    by (simp add: ValidateDocument_def exA_def exCfg_def)
  show "filterFiles (exCfg\<lparr>AllowedExtensions := []\<rparr>) [exA] = []"
    by (simp add: filterFiles_filter fileValid_def)
qed

text \<open>
  C5. A deny-listed pattern in the middle of a path does not exclude the file:
  \<open>contains\<close> compares the pattern with the start of the path only. With allowed
  extension \<open>.go\<close> and exclude pattern \<open>node_modules\<close>, the path
  \<open>src/node_modules/a.go\<close> holds the pattern (\<open>strings.Contains\<close>), the document
  processor's \<open>ValidateDocument\<close> rejects it, and \<open>filterFiles\<close> keeps it.
\<close>

theorem C5_pattern_inside_path_kept:
  "filterFiles \<lparr>Organization = ''org'', AllowedExtensions = [''.go''],
                 ExcludePatterns = [''node_modules''], MaxWorkers = 5\<rparr>
     [\<lparr>Repository = ''org/r'', FilePath = ''src/node_modules/a.go'', Content = ''x'',
       CommitSHA = ''c1'', ChangeType = ''added''\<rparr>]
   = [\<lparr>Repository = ''org/r'', FilePath = ''src/node_modules/a.go'', Content = ''x'',
       CommitSHA = ''c1'', ChangeType = ''added''\<rparr>]
   \<and> Contains ''src/node_modules/a.go'' ''node_modules''
   \<and> \<not> ValidateDocument \<lparr>Repository = ''org/r'', FilePath = ''src/node_modules/a.go'',
          Content = ''x'', CommitSHA = ''c1'', ChangeType = ''added''\<rparr> [''.go''] [''node_modules'']"
  by (simp add: hasExt_def contains_def ValidateDocument_def Ext_def)

section \<open>Properties of the document processor\<close>

lemma makeDocuments_length: "length (makeDocuments lib f chunks) = length chunks"
  by (simp add: makeDocuments_def)






text \<open>
  The loop of \<open>splitIntoChunks\<close> and the overlap. With a positive overlap the start
  position stays below the length of the text after every iteration (the chunk end is at
  most the length), so the loop never ends with chunks. Without overlap, and with a
  positive chunk size, every iteration moves the start position forward and the loop
  ends.
\<close>

lemma wrap64_id: "- (2 ^ 63) \<le> x \<Longrightarrow> x < 2 ^ 63 \<Longrightarrow> wrap64 x = x"
  by (simp add: wrap64_def)

lemma LastIndexAny_bounds: "- 1 \<le> LastIndexAny s chars \<and> LastIndexAny s chars < int (length s)"
proof (cases "filter (\<lambda>i. s ! i \<in> set chars) [0..<length s] = []")
  case True
  then show ?thesis by (simp add: LastIndexAny_def)
next
  case False
  then have "last (filter (\<lambda>i. s ! i \<in> set chars) [0..<length s])
               \<in> set (filter (\<lambda>i. s ! i \<in> set chars) [0..<length s])"
    by (rule last_in_set)
  then have "last (filter (\<lambda>i. s ! i \<in> set chars) [0..<length s]) < length s" by simp
  with False show ?thesis by (simp add: LastIndexAny_def Let_def)
qed

lemma slice_length: "0 \<le> lo \<Longrightarrow> hi \<le> int (length s) \<Longrightarrow> length (slice s lo hi) = nat (hi - lo)"
  by (auto simp: slice_def)

lemma splitLoop_overlap:
  assumes "splitLoop lib t m ov st cs = Some y"
  shows "0 < ov \<and> ov < 2 ^ 63 \<and> 0 \<le> st \<and> st < int (length t) \<and> int (length t) < 2 ^ 63
           \<longrightarrow> y = Inl Panic"
proof (rule splitLoop.raw_induct
    [where P = "\<lambda>lib t m ov st cs y.
        0 < ov \<and> ov < 2 ^ 63 \<and> 0 \<le> st \<and> st < int (length t) \<and> int (length t) < 2 ^ 63
           \<longrightarrow> y = Inl Panic", OF _ assms])
  fix f lib t m ov st cs y
  assume IH: "\<And>lib t m ov st cs y. f lib t m ov st cs = Some y \<Longrightarrow>
        0 < ov \<and> ov < 2 ^ 63 \<and> 0 \<le> st \<and> st < int (length t) \<and> int (length t) < 2 ^ 63
           \<longrightarrow> y = Inl Panic"
    and step: "(if st < int (length t) then
        (let textLen = int (length t);
             end0 = wrap64 (st + m);
             end1 = (if end0 > textLen then textLen else end0)
         in if end1 < st then Some (Inl Panic)
            else
              (let end2 = (if end1 < textLen
                           then (let lastPeriod = LastIndexAny (slice t st end1) sentenceEnds
                                 in if lastPeriod > quot m 2 then st + lastPeriod + 1 else end1)
                           else end1);
                   chunk = TrimSpace lib (slice t st end2);
                   chunks' = (if length chunk > 0 then cs @ [chunk] else cs);
                   start0 = wrap64 (end2 - ov);
                   start' = (if start0 < 0 then 0 else start0)
               in f lib t m ov start' chunks'))
      else Some (Inr cs)) = Some y"
  show "0 < ov \<and> ov < 2 ^ 63 \<and> 0 \<le> st \<and> st < int (length t) \<and> int (length t) < 2 ^ 63
           \<longrightarrow> y = Inl Panic"
  proof
    assume a: "0 < ov \<and> ov < 2 ^ 63 \<and> 0 \<le> st \<and> st < int (length t) \<and> int (length t) < 2 ^ 63"
    define e1 where "e1 = (if wrap64 (st + m) > int (length t) then int (length t) else wrap64 (st + m))"
    define lp where "lp = LastIndexAny (slice t st e1) sentenceEnds"
    define e2 where "e2 = (if e1 < int (length t)
                           then (if lp > quot m 2 then st + lp + 1 else e1) else e1)"
    define s' where "s' = (if wrap64 (e2 - ov) < 0 then 0 else wrap64 (e2 - ov))"
    have e1le: "e1 \<le> int (length t)" by (simp add: e1_def)
    show "y = Inl Panic"
    proof (cases "e1 < st")
      case True
      with step a show ?thesis by (simp add: Let_def e1_def)
    next
      case False
      have lpb: "- 1 \<le> lp" "lp < e1 - st \<or> e1 - st = 0 \<and> lp < 0"
        using LastIndexAny_bounds[of "slice t st e1" sentenceEnds] slice_length[of st e1 t] a e1le False
        by (auto simp: lp_def)
      have e2b: "st \<le> e2" "e2 \<le> int (length t)"
        using lpb False e1le by (auto simp: e2_def)
      have w: "wrap64 (e2 - ov) = e2 - ov"
        using a e2b by (intro wrap64_id) auto
      have s'b: "0 \<le> s'" "s' < int (length t)"
        using a e2b by (auto simp: s'_def w)
      from step a False obtain cs' where "f lib t m ov s' cs' = Some y"
        by (simp add: Let_def e1_def e2_def lp_def s'_def split: if_splits)
      from IH[OF this] a s'b show ?thesis by simp
    qed
  qed
qed

lemma splitIntoChunks_overlap_never_returns:
  assumes "0 < overlap" and "overlap < 2 ^ 63" and "t \<noteq> []" and "int (length t) < 2 ^ 63"
  shows "splitIntoChunks lib t maxSize overlap \<noteq> Some (Inr chunks)"
  using splitLoop_overlap[of lib t maxSize overlap 0 "[]" "Inr chunks"] assms
  by (auto simp: splitIntoChunks_def)


lemma quot_2_nonneg: "0 < m \<Longrightarrow> quot m 2 = m div 2"
  by (simp add: quot_def)

lemma splitLoop_step:
  assumes "st < int (length t)"
    and "e1 = (if wrap64 (st + m) > int (length t) then int (length t) else wrap64 (st + m))"
    and "\<not> e1 < st"
    and "lp = LastIndexAny (slice t st e1) sentenceEnds"
    and "e2 = (if e1 < int (length t) then (if lp > quot m 2 then st + lp + 1 else e1) else e1)"
    and "cs' = (if length (TrimSpace lib (slice t st e2)) > 0
                then cs @ [TrimSpace lib (slice t st e2)] else cs)"
    and "s' = (if wrap64 (e2 - ov) < 0 then 0 else wrap64 (e2 - ov))"
  shows "splitLoop lib t m ov st cs = splitLoop lib t m ov s' cs'"
  using assms(1,3) unfolding assms(2,4,5,6,7)
  by (subst splitLoop.simps) (simp add: Let_def)

lemma splitLoop_no_overlap_returns:
  assumes m: "0 < m" and bound: "m + int (length t) < 2 ^ 63"
  shows "0 \<le> st \<Longrightarrow> \<exists>chunks. splitLoop lib t m 0 st cs = Some (Inr chunks)"
proof (induction "nat (int (length t) - st)" arbitrary: st cs rule: less_induct)
  case less
  show ?case
  proof (cases "st < int (length t)")
    case False
    then show ?thesis by (subst splitLoop.simps) simp
  next
    case True
    define e1 where "e1 = (if wrap64 (st + m) > int (length t) then int (length t) else wrap64 (st + m))"
    define lp where "lp = LastIndexAny (slice t st e1) sentenceEnds"
    define e2 where "e2 = (if e1 < int (length t)
                           then (if lp > quot m 2 then st + lp + 1 else e1) else e1)"
    define cs' where "cs' = (if length (TrimSpace lib (slice t st e2)) > 0
                             then cs @ [TrimSpace lib (slice t st e2)] else cs)"
    define s' where "s' = (if wrap64 (e2 - 0) < 0 then 0 else wrap64 (e2 - 0))"
    have w0: "wrap64 (st + m) = st + m"
      using True less.prems m bound by (intro wrap64_id) auto
    have e1b: "st < e1" "e1 \<le> int (length t)"
      using True m by (auto simp: e1_def w0)
    have lpb: "- 1 \<le> lp" "lp < e1 - st"
      using LastIndexAny_bounds[of "slice t st e1" sentenceEnds] slice_length[of st e1 t]
        less.prems e1b by (auto simp: lp_def)
    have q: "0 \<le> quot m 2" using m by (simp add: quot_2_nonneg)
    have e2b: "st < e2" "e2 \<le> int (length t)"
      using lpb e1b q by (auto simp: e2_def)
    have s': "s' = e2"
      using e2b less.prems bound m wrap64_id[of e2] by (simp add: s'_def)
    have ne: "\<not> e1 < st" using e1b by simp
    have unfold: "splitLoop lib t m 0 st cs = splitLoop lib t m 0 e2 cs'"
      using splitLoop_step[OF True e1_def ne lp_def e2_def cs'_def s'_def] s' by simp
    have "nat (int (length t) - e2) < nat (int (length t) - st)"
      using e2b True by simp
    from less.hyps[OF this, of cs'] e2b less.prems unfold show ?thesis by simp
  qed
qed

lemma splitIntoChunks_no_overlap_returns:
  assumes "0 < maxSize" and "maxSize + int (length t) < 2 ^ 63"
  shows "\<exists>chunks. splitIntoChunks lib t maxSize 0 = Some (Inr chunks)"
  using splitLoop_no_overlap_returns[OF assms, of 0 lib "[]"]
  by (simp add: splitIntoChunks_def)

lemma splitLoop_abc_stuck:
  assumes "splitLoop lib t m ov st cs = Some y"
  shows "\<not> (t = ''abc'' \<and> m = 10 \<and> ov = 2 \<and> st = 1)"
proof (rule splitLoop.raw_induct
    [where P = "\<lambda>lib t m ov st cs y. \<not> (t = ''abc'' \<and> m = 10 \<and> ov = 2 \<and> st = 1)", OF _ assms])
  fix f lib t m ov st cs y
  assume IH: "\<And>lib t m ov st cs y. f lib t m ov st cs = Some y \<Longrightarrow>
                \<not> (t = ''abc'' \<and> m = 10 \<and> ov = 2 \<and> st = 1)"
    and step: "(if st < int (length t) then
        (let textLen = int (length t);
             end0 = wrap64 (st + m);
             end1 = (if end0 > textLen then textLen else end0)
         in if end1 < st then Some (Inl Panic)
            else
              (let end2 = (if end1 < textLen
                           then (let lastPeriod = LastIndexAny (slice t st end1) sentenceEnds
                                 in if lastPeriod > quot m 2 then st + lastPeriod + 1 else end1)
                           else end1);
                   chunk = TrimSpace lib (slice t st end2);
                   chunks' = (if length chunk > 0 then cs @ [chunk] else cs);
                   start0 = wrap64 (end2 - ov);
                   start' = (if start0 < 0 then 0 else start0)
               in f lib t m ov start' chunks'))
      else Some (Inr cs)) = Some y"
  show "\<not> (t = ''abc'' \<and> m = 10 \<and> ov = 2 \<and> st = 1)"
  proof
    assume s: "t = ''abc'' \<and> m = 10 \<and> ov = 2 \<and> st = 1"
    with step obtain cs' where "f lib ''abc'' 10 2 1 cs' = Some y"
      by (simp add: wrap64_def Let_def split: if_splits)
    from IH[OF this] show False by simp
  qed
qed

lemma splitLoop_abc_None: "splitLoop lib ''abc'' 10 2 1 chunks = None"
  using splitLoop_abc_stuck[of lib "''abc''" 10 2 1 chunks]
  by (cases "splitLoop lib ''abc'' 10 2 1 chunks") auto

text \<open>
  C8. With \<open>maxSize = 10\<close> and \<open>overlap = 2\<close> (so \<open>0 \<le> overlap < maxSize/2\<close>),
  \<open>splitIntoChunks\<close> does not return on the text \<open>abc\<close>, whatever \<open>TrimSpace\<close>
  computes: after the first chunk the start position is \<open>len - overlap = 1\<close>, and every
  later iteration ends at \<open>len\<close> and sets the start position to \<open>1\<close> again.
\<close>

theorem C8_splitIntoChunks_abc_diverges: "splitIntoChunks lib ''abc'' 10 2 = None"
  unfolding splitIntoChunks_def
  by (subst splitLoop.simps) (simp add: wrap64_def Let_def splitLoop_abc_None)

text \<open>
  C10. \<open>CleanContent\<close> is not idempotent: a line is trimmed before its control
  characters are removed, so the line \<open>0x01 0x20 a\<close> is cleaned to \<open>" a"\<close>, with the
  space now leading, and cleaning that gives \<open>"a"\<close>.
\<close>

theorem C10_CleanContent_twice_differs:
  "CleanContent (asciiLib h) [CHR 0x01, CHR 0x20, CHR ''a''] = '' a''
   \<and> CleanContent (asciiLib h) (CleanContent (asciiLib h) [CHR 0x01, CHR 0x20, CHR ''a'']) = ''a''"
  by code_simp

section \<open>Properties of the orchestrator\<close>

subsection \<open>Embedding generation\<close>

lemma createEmbeddings_zip:
  "i + length docs \<le> length vectors \<Longrightarrow>
   createEmbeddings cfg vectors i docs =
     Inr (map (\<lambda>(doc, v). mkEmbedding cfg doc v) (zip docs (drop i vectors)))"
proof (induction docs arbitrary: i)
  case Nil
  then show ?case by simp
next
  case (Cons doc docs)
  then have i: "i < length vectors" and rest: "Suc i + length docs \<le> length vectors"
    by simp_all
  from i have "drop i vectors = vectors ! i # drop (Suc i) vectors"
    by (simp add: Cons_nth_drop_Suc)
  with Cons.IH[OF rest] i show ?case by simp
qed

lemma createEmbeddings_length:
  "createEmbeddings cfg vectors i docs = Inr es \<Longrightarrow> length es = length docs"
  by (induction docs arbitrary: i es) (auto split: if_splits sum.splits)

lemma createEmbeddings_not_Err: "createEmbeddings cfg vectors i docs \<noteq> Inl (Err e)"
  by (induction docs arbitrary: i) (auto split: if_splits sum.splits)

text \<open>
  C7. When the embedding service answers the texts of the documents with exactly one
  vector per document, \<open>generateEmbeddings\<close> returns embeddings and does not panic:
  one embedding per document, the \<open>i\<close>-th with the identifier, metadata, repository and
  path of document \<open>i\<close> and the \<open>i\<close>-th vector of the answer.
\<close>

theorem C7_generateEmbeddings_total:
  assumes "embedSvc sv (map DocContent documents) = Inr vectors"
    and "length vectors = length documents"
  shows "\<exists>embeddings.
           fst (generateEmbeddings sv cfg documents) = Inr embeddings
         \<and> length embeddings = length documents
         \<and> (\<forall>i < length documents.
               EmbID (embeddings ! i) = ID (documents ! i)
             \<and> EmbMetadata (embeddings ! i) = DocMetadata (documents ! i)
             \<and> EmbRepository (embeddings ! i) = DocRepository (documents ! i)
             \<and> EmbFilePath (embeddings ! i) = DocFilePath (documents ! i)
             \<and> Vector (embeddings ! i) = vectors ! i)"
proof (cases "documents = []")
  case True
  then show ?thesis by (simp add: generateEmbeddings_def)
next
  case False
  let ?es = "map (\<lambda>(doc, v). mkEmbedding cfg doc v) (zip documents vectors)"
  from assms(2) have "createEmbeddings cfg vectors 0 documents = Inr ?es"
    using createEmbeddings_zip[of 0 documents vectors cfg] by simp
  with False assms(1) have "fst (generateEmbeddings sv cfg documents) = Inr ?es"
    by (simp add: generateEmbeddings_def)
  moreover have "length ?es = length documents" using assms(2) by simp
  moreover have "\<forall>i < length documents.
               EmbID (?es ! i) = ID (documents ! i)
             \<and> EmbMetadata (?es ! i) = DocMetadata (documents ! i)
             \<and> EmbRepository (?es ! i) = DocRepository (documents ! i)
             \<and> EmbFilePath (?es ! i) = DocFilePath (documents ! i)
             \<and> Vector (?es ! i) = vectors ! i"
    using assms(2) by (simp add: mkEmbedding_def)
  ultimately show ?thesis by blast
qed

theorem C7_generateEmbeddings_total_witness:
  "embedSvc exServices (map DocContent exDocs) = Inr [[7], [1]]
   \<and> length [[7], [1 :: float32]] = length exDocs
   \<and> (\<exists>embeddings.
           fst (generateEmbeddings exServices exCfg exDocs) = Inr embeddings
         \<and> length embeddings = length exDocs
         \<and> (\<forall>i < length exDocs.
               EmbID (embeddings ! i) = ID (exDocs ! i)
             \<and> EmbMetadata (embeddings ! i) = DocMetadata (exDocs ! i)
             \<and> EmbRepository (embeddings ! i) = DocRepository (exDocs ! i)
             \<and> EmbFilePath (embeddings ! i) = DocFilePath (exDocs ! i)
             \<and> Vector (embeddings ! i) = [[7], [1]] ! i))"
proof -
  have e: "embedSvc exServices (map DocContent exDocs) = Inr [[7], [1]]"
    by code_simp
  have l: "length [[7], [1 :: float32]] = length exDocs"
    by (simp add: exDocs_def makeDocuments_length)
  from C7_generateEmbeddings_total[OF e l, of exCfg] e l show ?thesis by blast
qed

subsection \<open>Traces of the phases\<close>

lemma isWork_others: "isWork x \<Longrightarrow> \<not> isDelete x \<and> \<not> isSave x \<and> \<not> isUpsert x"
  by (cases x) simp_all

lemma work_trace:
  assumes "list_all isWork tr"
  shows "list_all (\<lambda>x. \<not> isDelete x) tr" and "filter isSave tr = []" and "filter isUpsert tr = []"
  using assms isWork_others by (auto simp: list_all_iff filter_empty_conv)

lemma processFile_cases:
  "processFile sv cfg f = (r, tr) \<Longrightarrow>
     r \<noteq> Inl (Err e)
   \<and> list_all isWork tr
   \<and> (\<forall>es n. r = Inr (es, n) \<longrightarrow>
         filter isWarning tr = (case fileWarning sv f of None \<Rightarrow> [] | Some w \<Rightarrow> [w])
       \<and> length es = (if fileWarning sv f = None then fileChunks sv f else 0)
       \<and> n = (if fileWarning sv f = None then fileChunks sv f else 0))"
  by (auto simp: processFile_def generateEmbeddings_def fileWarning_def fileChunks_def Let_def
        createEmbeddings_not_Err
      dest: createEmbeddings_length
      split: sum.splits error.splits prod.splits if_splits)

lemma processBatch_trace:
  "processBatch sv cfg files = (r, tr) \<Longrightarrow> r \<noteq> Inl (Err e) \<and> list_all isWork tr"
proof (induction files arbitrary: r tr)
  case Nil
  then show ?case by auto
next
  case (Cons f files)
  obtain r1 t1 where p1: "processFile sv cfg f = (r1, t1)" by (cases "processFile sv cfg f")
  obtain r2 t2 where p2: "processBatch sv cfg files = (r2, t2)" by (cases "processBatch sv cfg files")
  from processFile_cases[OF p1, of e] have a: "r1 \<noteq> Inl (Err e)" "list_all isWork t1"
    by simp_all
  from Cons.IH[OF p2] have b: "r2 \<noteq> Inl (Err e)" "list_all isWork t2"
    by simp_all
  from Cons.prems p1 p2 a b show ?case
    by (auto split: sum.splits prod.splits)
qed

lemma processBatch_warnings:
  "processBatch sv cfg files = (Inr (es, n), tr) \<Longrightarrow>
     filter isWarning tr = List.map_filter (fileWarning sv) files
   \<and> length es = sum_list (map (fileChunks sv) (filter (\<lambda>f. fileWarning sv f = None) files))
   \<and> n = length es"
proof (induction files arbitrary: es n tr)
  case Nil
  then show ?case by (auto simp: List.map_filter_simps)
next
  case (Cons f files)
  obtain r1 t1 where p1: "processFile sv cfg f = (r1, t1)" by (cases "processFile sv cfg f")
  obtain r2 t2 where p2: "processBatch sv cfg files = (r2, t2)" by (cases "processBatch sv cfg files")
  from Cons.prems p1 p2 obtain es1 n1 es2 n2 where
    r1: "r1 = Inr (es1, n1)" and r2: "r2 = Inr (es2, n2)"
    and es: "es = es1 @ es2" and n: "n = n1 + n2" and tr: "tr = t1 @ t2"
    by (auto split: sum.splits prod.splits)
  from processFile_cases[OF p1, of undefined] r1 have
    a: "filter isWarning t1 = (case fileWarning sv f of None \<Rightarrow> [] | Some w \<Rightarrow> [w])"
       "length es1 = (if fileWarning sv f = None then fileChunks sv f else 0)"
       "n1 = (if fileWarning sv f = None then fileChunks sv f else 0)"
    by simp_all
  from Cons.IH[OF p2[unfolded r2]] have
    b: "filter isWarning t2 = List.map_filter (fileWarning sv) files"
       "length es2 = sum_list (map (fileChunks sv) (filter (\<lambda>f. fileWarning sv f = None) files))"
       "n2 = length es2"
    by simp_all
  from a b show ?case
    by (auto simp: es n tr List.map_filter_simps split: option.splits)
qed

lemma processBatch_append:
  "processBatch sv cfg (xs @ ys) =
     (case processBatch sv cfg xs of
        (Inl e, tr) \<Rightarrow> (Inl e, tr)
      | (Inr (embeddings, chunks), tr) \<Rightarrow>
          (case processBatch sv cfg ys of
             (Inl e, tr') \<Rightarrow> (Inl e, tr @ tr')
           | (Inr (allEmbeddings, totalChunks), tr') \<Rightarrow>
               (Inr (embeddings @ allEmbeddings, chunks + totalChunks), tr @ tr')))"
  by (induction xs) (auto split: prod.splits sum.splits)

text \<open>
  When the batching loop returns normally, its result is that of one batch holding all
  the files: by fixpoint induction, with the invariant that the accumulators are the
  result of the files before position \<open>i\<close>.
\<close>

lemma processFilesLoop_batch:
  assumes "processFilesLoop sv cfg files i allEmbeddings totalChunks tr = Some y"
  shows "0 \<le> i \<longrightarrow> processBatch sv cfg (take (nat i) files) = (Inr (allEmbeddings, totalChunks), tr)
         \<longrightarrow> (\<forall>x tr'. y = (Inr x, tr') \<longrightarrow> processBatch sv cfg files = y)"
proof (rule processFilesLoop.raw_induct
    [where P = "\<lambda>sv cfg files i allEmbeddings totalChunks tr y.
        0 \<le> i \<longrightarrow> processBatch sv cfg (take (nat i) files) = (Inr (allEmbeddings, totalChunks), tr)
         \<longrightarrow> (\<forall>x tr'. y = (Inr x, tr') \<longrightarrow> processBatch sv cfg files = y)", OF _ assms])
  fix f sv cfg files i allEmbeddings totalChunks tr y
  assume IH: "\<And>sv cfg files i allEmbeddings totalChunks tr y.
      f sv cfg files i allEmbeddings totalChunks tr = Some y \<Longrightarrow>
        0 \<le> i \<longrightarrow> processBatch sv cfg (take (nat i) files) = (Inr (allEmbeddings, totalChunks), tr)
         \<longrightarrow> (\<forall>x tr'. y = (Inr x, tr') \<longrightarrow> processBatch sv cfg files = y)"
    and step: "(if i < int (length files) then
        (let batchSize = MaxWorkers cfg;
             end0 = wrap64 (i + batchSize);
             end1 = (if end0 > int (length files) then int (length files) else end0)
         in if end1 < i then Some (Inl Panic, tr)
            else
              (case processBatch sv cfg (slice files i end1) of
                 (Inl e, tr') \<Rightarrow> Some (Inl e, tr @ tr')
               | (Inr (embeddings, chunks), tr') \<Rightarrow>
                   f sv cfg files (wrap64 (i + batchSize))
                     (allEmbeddings @ embeddings) (totalChunks + chunks) (tr @ tr')))
      else Some (Inr (allEmbeddings, totalChunks), tr)) = Some y"
  show "0 \<le> i \<longrightarrow> processBatch sv cfg (take (nat i) files) = (Inr (allEmbeddings, totalChunks), tr)
         \<longrightarrow> (\<forall>x tr'. y = (Inr x, tr') \<longrightarrow> processBatch sv cfg files = y)"
  proof (intro impI allI)
    fix x tr'
    assume i0: "0 \<le> i"
      and inv: "processBatch sv cfg (take (nat i) files) = (Inr (allEmbeddings, totalChunks), tr)"
      and y: "y = (Inr x, tr')"
    show "processBatch sv cfg files = y"
    proof (cases "i < int (length files)")
      case False
      with step inv show ?thesis by simp
    next
      case True
      define e0 where "e0 = wrap64 (i + MaxWorkers cfg)"
      define e1 where "e1 = (if e0 > int (length files) then int (length files) else e0)"
      from step True y have ge: "\<not> e1 < i"
        by (auto simp: Let_def e0_def e1_def split: if_splits)
      obtain r trb where pb: "processBatch sv cfg (slice files i e1) = (r, trb)"
        by (cases "processBatch sv cfg (slice files i e1)")
      from step True y ge pb obtain es n where r: "r = Inr (es, n)"
        and rec: "f sv cfg files e0 (allEmbeddings @ es) (totalChunks + n) (tr @ trb) = Some y"
        by (cases r) (auto simp: Let_def e0_def e1_def split: if_splits prod.splits)
      have e00: "0 \<le> e0" using ge i0 True by (auto simp: e1_def split: if_splits)
      have tk: "take (nat e0) files = take (nat i) files @ slice files i e1"
      proof -
        have "take (nat e0) files = take (nat e1) files"
          by (auto simp: e1_def)
        also have "nat e1 = nat i + nat (e1 - i)" using ge i0 by simp
        also have "take (nat i + nat (e1 - i)) files
                     = take (nat i) files @ take (nat (e1 - i)) (drop (nat i) files)"
          by (simp add: take_add)
        finally show ?thesis by (simp add: slice_def)
      qed
      have "processBatch sv cfg (take (nat e0) files)
              = (Inr (allEmbeddings @ es, totalChunks + n), tr @ trb)"
        by (simp add: tk processBatch_append inv pb r)
      with IH[OF rec] e00 y show ?thesis by blast
    qed
  qed
qed

lemma processFiles_batch:
  "processFiles sv cfg files = Some (Inr x, tr) \<Longrightarrow> processBatch sv cfg files = (Inr x, tr)"
  using processFilesLoop_batch[of sv cfg files 0 "[]" 0 "[]" "(Inr x, tr)"]
  by (simp add: processFiles_def)

lemma processFilesLoop_trace:
  assumes "processFilesLoop sv cfg files i allEmbeddings totalChunks tr = Some y"
  shows "list_all isWork tr \<longrightarrow> fst y \<noteq> Inl (Err e) \<and> list_all isWork (snd y)"
proof (rule processFilesLoop.raw_induct
    [where P = "\<lambda>sv cfg files i allEmbeddings totalChunks tr y.
        list_all isWork tr \<longrightarrow> fst y \<noteq> Inl (Err e) \<and> list_all isWork (snd y)", OF _ assms])
  fix f sv cfg files i allEmbeddings totalChunks tr y
  assume IH: "\<And>sv cfg files i allEmbeddings totalChunks tr y.
      f sv cfg files i allEmbeddings totalChunks tr = Some y \<Longrightarrow>
        list_all isWork tr \<longrightarrow> fst y \<noteq> Inl (Err e) \<and> list_all isWork (snd y)"
    and step: "(if i < int (length files) then
        (let batchSize = MaxWorkers cfg;
             end0 = wrap64 (i + batchSize);
             end1 = (if end0 > int (length files) then int (length files) else end0)
         in if end1 < i then Some (Inl Panic, tr)
            else
              (case processBatch sv cfg (slice files i end1) of
                 (Inl e, tr') \<Rightarrow> Some (Inl e, tr @ tr')
               | (Inr (embeddings, chunks), tr') \<Rightarrow>
                   f sv cfg files (wrap64 (i + batchSize))
                     (allEmbeddings @ embeddings) (totalChunks + chunks) (tr @ tr')))
      else Some (Inr (allEmbeddings, totalChunks), tr)) = Some y"
  show "list_all isWork tr \<longrightarrow> fst y \<noteq> Inl (Err e) \<and> list_all isWork (snd y)"
  proof
    assume nd: "list_all isWork tr"
    define e1 where "e1 = (if wrap64 (i + MaxWorkers cfg) > int (length files)
                           then int (length files) else wrap64 (i + MaxWorkers cfg))"
    obtain r trb where pb: "processBatch sv cfg (slice files i e1) = (r, trb)"
      by (cases "processBatch sv cfg (slice files i e1)")
    from processBatch_trace[OF pb, of e] have
      b: "r \<noteq> Inl (Err e)" "list_all isWork trb" by simp_all
    show "fst y \<noteq> Inl (Err e) \<and> list_all isWork (snd y)"
    proof (cases "i < int (length files)")
      case False
      with step nd show ?thesis by auto
    next
      case True
      show ?thesis
      proof (cases "e1 < i")
        case True
        with step \<open>i < int (length files)\<close> nd show ?thesis
          by (auto simp: Let_def e1_def)
      next
        case False
        show ?thesis
        proof (cases r)
          case (Inl err)
          with step \<open>i < int (length files)\<close> False pb nd b show ?thesis
            by (auto simp: Let_def e1_def)
        next
          case (Inr x)
          obtain es n where x: "x = (es, n)" by (cases x)
          from step \<open>i < int (length files)\<close> False pb Inr x
          have "f sv cfg files (wrap64 (i + MaxWorkers cfg)) (allEmbeddings @ es)
                  (totalChunks + n) (tr @ trb) = Some y"
            by (auto simp: Let_def e1_def)
          from IH[OF this] nd b show ?thesis by simp
        qed
      qed
    qed
  qed
qed

lemma processFiles_trace:
  "processFiles sv cfg files = Some (r, tr) \<Longrightarrow> r \<noteq> Inl (Err e) \<and> list_all isWork tr"
  using processFilesLoop_trace[of sv cfg files 0 "[]" 0 "[]" "(r, tr)" e]
  by (simp add: processFiles_def)

lemma diffRepos_trace:
  "diffRepos sv projectID incremental repos = (files, warnings, tr) \<Longrightarrow>
     list_all isWork tr \<and> filter isWarning tr = []
   \<and> warnings = List.map_filter (diffWarning sv projectID incremental) repos"
proof (induction repos arbitrary: files warnings tr)
  case Nil
  then show ?case by (simp add: List.map_filter_simps)
next
  case (Cons repo repos)
  obtain fs ws t where d: "diffRepos sv projectID incremental repos = (fs, ws, t)"
    by (cases "diffRepos sv projectID incremental repos")
  from Cons.IH[OF d] Cons.prems d show ?case
    by (auto simp: Let_def diffWarning_def List.map_filter_simps split: sum.splits if_splits)
qed

text \<open>
  The embeddings of a batch are those that the answers of the services give for its
  files, and a call of \<open>logger.Warning\<close> writes nothing when the logger is unset or
  its level is \<open>ERROR\<close>. The embeddings, the chunk count and the warnings of a batch
  do not depend, as multisets, on the order of its files.
\<close>

lemma createEmbeddings_Inr_zip:
  "createEmbeddings cfg vectors i docs = Inr es \<Longrightarrow>
     es = map (\<lambda>(doc, v). mkEmbedding cfg doc v) (zip docs (drop i vectors))"
proof (induction docs arbitrary: i es)
  case Nil
  then show ?case by simp
next
  case (Cons doc docs)
  from Cons.prems have i: "i < length vectors"
    by (auto split: if_splits)
  with Cons.prems obtain es' where r: "createEmbeddings cfg vectors (Suc i) docs = Inr es'"
    and es: "es = mkEmbedding cfg doc (vectors ! i) # es'"
    by (auto split: sum.splits)
  from i have "drop i vectors = vectors ! i # drop (Suc i) vectors"
    by (simp add: Cons_nth_drop_Suc)
  with Cons.IH[OF r] es show ?case by simp
qed

lemma processFile_embeddings:
  "processFile sv cfg f = (Inr (es, n), tr) \<Longrightarrow> es = fileEmbeddings sv cfg f"
  by (auto simp: processFile_def generateEmbeddings_def fileEmbeddings_def Let_def
        createEmbeddings_not_Err
      dest: createEmbeddings_Inr_zip
      split: sum.splits error.splits prod.splits if_splits)

lemma processBatch_embeddings:
  "processBatch sv cfg files = (Inr (es, n), tr) \<Longrightarrow>
     es = concat (map (fileEmbeddings sv cfg) files)"
proof (induction files arbitrary: es n tr)
  case Nil
  then show ?case by simp
next
  case (Cons f files)
  obtain r1 t1 where p1: "processFile sv cfg f = (r1, t1)" by (cases "processFile sv cfg f")
  obtain r2 t2 where p2: "processBatch sv cfg files = (r2, t2)" by (cases "processBatch sv cfg files")
  from Cons.prems p1 p2 obtain es1 n1 es2 n2 where
    r1: "r1 = Inr (es1, n1)" and r2: "r2 = Inr (es2, n2)" and es: "es = es1 @ es2"
    by (auto split: sum.splits prod.splits)
  from processFile_embeddings[OF p1[unfolded r1]] Cons.IH[OF p2[unfolded r2]] es
  show ?case by simp
qed

lemma failed_file_no_embeddings:
  "fileWarning sv f \<noteq> None \<Longrightarrow> fileEmbeddings sv cfg f = []"
  by (auto simp: fileWarning_def fileEmbeddings_def split: sum.splits if_splits)

lemma written_filter: "written lg tr = written lg (filter isWarning tr)"
  by (induction lg tr rule: written.induct) simp_all

lemma written_silent:
  "lg = None \<or> (\<exists>l. lg = Some l \<and> logLevel l = ERROR) \<Longrightarrow> written lg tr = []"
  by (induction lg tr rule: written.induct) (auto simp: Warning_def logWrite_def)


lemma mset_concat_map_cong:
  "mset xs = mset ys \<Longrightarrow> mset (concat (map g xs)) = mset (concat (map g ys))"
proof -
  assume e: "mset xs = mset ys"
  have "mset (concat (map g zs)) = \<Sum>\<^sub># (image_mset (\<lambda>x. mset (g x)) (mset zs))" for zs
    by (induction zs) simp_all
  with e show ?thesis by simp
qed

lemma mset_map_filter_cong:
  "mset xs = mset ys \<Longrightarrow> mset (List.map_filter g xs) = mset (List.map_filter g ys)"
proof -
  assume e: "mset xs = mset ys"
  have "mset (List.map_filter g zs)
          = image_mset (\<lambda>x. the (g x)) (filter_mset (\<lambda>x. g x \<noteq> None) (mset zs))" for zs
    by (simp add: List.map_filter_def comp_def)
  with e show ?thesis by simp
qed

lemma processBatch_order_independent:
  assumes "mset files' = mset files"
    and "processBatch sv cfg files = (Inr (es, n), tr)"
    and "processBatch sv cfg files' = (Inr (es', n'), tr')"
  shows "mset es' = mset es \<and> n' = n
       \<and> mset (filter isWarning tr') = mset (filter isWarning tr)"
proof -
  from processBatch_embeddings[OF assms(2)] processBatch_embeddings[OF assms(3)]
  have es: "mset es' = mset es"
    using mset_concat_map_cong[OF assms(1)] by simp
  from processBatch_warnings[OF assms(2)] processBatch_warnings[OF assms(3)]
  have w: "mset (filter isWarning tr') = mset (filter isWarning tr)"
    and n: "n = length es" "n' = length es'"
    using mset_map_filter_cong[OF assms(1)] by simp_all
  from es have "length es' = length es" by (rule mset_eq_length)
  with es w n show ?thesis by simp
qed

subsection \<open>The run\<close>

text \<open>
  The shape of a run that got its repositories: the trace is the listing, the diffs,
  the processing and a tail of upsert, checkpoint and notification calls; the tail holds
  no checkpoint call when the run returns an error.
\<close>

lemma filter_isSave_posts:
  "filter isSave (map (\<lambda>file. SaveMetadata (g file)) files) = map (\<lambda>file. SaveMetadata (g file)) files"
  "filter isUpsert (map (\<lambda>file. SaveMetadata (g file)) files) = []"
  by (induction files) simp_all

lemma SyncProject_shape:
  assumes run: "SyncProject sv cfg projectID incremental = Some (out, tr)"
    and repos: "listRepos sv = Inr repos"
    and diff: "diffRepos sv projectID incremental repos = (allChangedFiles, warnings, tr2)"
  shows "\<exists>r tr4 tl. processFiles sv cfg (filterFiles cfg allChangedFiles) = Some (r, tr4)
           \<and> tr = ListRepositories # tr2 @ tr4 @ tl
           \<and> list_all (\<lambda>x. \<not> isDelete x) tl \<and> filter isWarning tl = []
           \<and> (r = Inl Panic \<longrightarrow> out = Inl Panic)
           \<and> (\<forall>embeddings chunks. r = Inr (embeddings, chunks) \<longrightarrow>
                 (case out of
                    Inl e \<Rightarrow> False
                  | Inr (result, err) \<Rightarrow>
                      Warnings result = warnings
                    \<and> ChunksCreated result = chunks
                    \<and> EmbeddingsGenerated result = length embeddings
                    \<and> VectorsUpserted result = (if err = None then length embeddings else 0)
                    \<and> Success result = (err = None)
                    \<and> filter isUpsert tl = (if embeddings = [] then [] else [Upsert embeddings])
                    \<and> filter isSave tl =
                        (if err = None
                         then map (\<lambda>file. SaveMetadata (mkMetadata projectID file))
                                (filterFiles cfg allChangedFiles)
                         else [])))"
proof -
  obtain r tr4 where pf: "processFiles sv cfg (filterFiles cfg allChangedFiles) = Some (r, tr4)"
    using run repos diff
    by (cases "processFiles sv cfg (filterFiles cfg allChangedFiles)")
       (auto simp: SyncProject_def Let_def)
  from processFiles_trace[OF pf] have ne: "\<And>e. r \<noteq> Inl (Err e)" by simp
  show ?thesis
  proof (cases r)
    case (Inl e)
    with ne have p: "r = Inl Panic" by (cases e) auto
    with run repos diff pf show ?thesis
      by (auto simp: SyncProject_def Let_def)
  next
    case (Inr x)
    obtain embeddings chunks where x: "x = (embeddings, chunks)" by (cases x)
    show ?thesis
    proof (cases "length embeddings > 0")
      case False
      with run repos diff pf Inr x show ?thesis
        by (auto simp: SyncProject_def Let_def list_all_iff filter_isSave_posts)
    next
      case True
      show ?thesis
      proof (cases "upsertSvc sv embeddings")
        case None
        with True run repos diff pf Inr x show ?thesis
          by (auto simp: SyncProject_def Let_def list_all_iff filter_isSave_posts)
      next
        case (Some e)
        with True run repos diff pf Inr x show ?thesis
          by (auto simp: SyncProject_def Let_def list_all_iff)
      qed
    qed
  qed
qed

lemma SyncProject_returned:
  assumes run: "SyncProject sv cfg projectID incremental = Some (Inr (result, err), tr)"
    and repos: "listRepos sv = Inr repos"
    and diff: "diffRepos sv projectID incremental repos = (allChangedFiles, warnings, tr2)"
  shows "\<exists>embeddings chunks tr4 tl.
           processFiles sv cfg (filterFiles cfg allChangedFiles) = Some (Inr (embeddings, chunks), tr4)
         \<and> tr = ListRepositories # tr2 @ tr4 @ tl
         \<and> filter isWarning tl = []
         \<and> Warnings result = warnings
         \<and> EmbeddingsGenerated result = length embeddings
         \<and> VectorsUpserted result = (if err = None then length embeddings else 0)
         \<and> filter isUpsert tl = (if embeddings = [] then [] else [Upsert embeddings])
         \<and> filter isSave tl =
             (if err = None
              then map (\<lambda>file. SaveMetadata (mkMetadata projectID file))
                     (filterFiles cfg allChangedFiles)
              else [])"
proof -
  from SyncProject_shape[OF run repos diff] obtain r tr4 tl where
    pf: "processFiles sv cfg (filterFiles cfg allChangedFiles) = Some (r, tr4)"
    and tr: "tr = ListRepositories # tr2 @ tr4 @ tl"
    and tl: "filter isWarning tl = []"
    and p: "r = Inl Panic \<longrightarrow> Inr (result, err) = (Inl Panic :: error + SyncResult \<times> string option)"
    and ok: "\<forall>embeddings chunks. r = Inr (embeddings, chunks) \<longrightarrow>
                 (case (Inr (result, err) :: error + SyncResult \<times> string option) of
                    Inl e \<Rightarrow> False
                  | Inr (result, err) \<Rightarrow>
                      Warnings result = warnings
                    \<and> ChunksCreated result = chunks
                    \<and> EmbeddingsGenerated result = length embeddings
                    \<and> VectorsUpserted result = (if err = None then length embeddings else 0)
                    \<and> Success result = (err = None)
                    \<and> filter isUpsert tl = (if embeddings = [] then [] else [Upsert embeddings])
                    \<and> filter isSave tl =
                        (if err = None
                         then map (\<lambda>file. SaveMetadata (mkMetadata projectID file))
                                (filterFiles cfg allChangedFiles)
                         else []))"
    by (elim exE conjE) (rule that)
  from p have np: "r \<noteq> Inl Panic" by simp
  from processFiles_trace[OF pf] have ne: "\<And>e. r \<noteq> Inl (Err e)" by simp
  obtain es n where r: "r = Inr (es, n)"
  proof (cases r)
    case (Inl e)
    with np ne show ?thesis by (cases e) auto
  next
    case (Inr x)
    then show ?thesis using that by (cases x) auto
  qed
  from ok[rule_format, OF r] have
    "Warnings result = warnings
     \<and> EmbeddingsGenerated result = length es
     \<and> VectorsUpserted result = (if err = None then length es else 0)
     \<and> filter isUpsert tl = (if es = [] then [] else [Upsert es])
     \<and> filter isSave tl =
         (if err = None
          then map (\<lambda>file. SaveMetadata (mkMetadata projectID file))
                 (filterFiles cfg allChangedFiles)
          else [])"
    by simp
  with pf[unfolded r] tr tl show ?thesis by blast
qed

text \<open>
  A run that returns an error has sent no checkpoint: the failure of the upsert request
  returns before step 6.
\<close>

lemma failed_run_saves_nothing:
  assumes "SyncProject sv cfg projectID incremental = Some (Inr (result, Some e), tr)"
  shows "filter isSave tr = []"
proof (cases "listRepos sv")
  case (Inl e')
  with assms show ?thesis by (auto simp: SyncProject_def Let_def)
next
  case (Inr repos)
  obtain fs ws tr2 where d: "diffRepos sv projectID incremental repos = (fs, ws, tr2)"
    by (cases "diffRepos sv projectID incremental repos")
  from SyncProject_returned[OF assms Inr d] obtain es n tr4 tl where
    pf: "processFiles sv cfg (filterFiles cfg fs) = Some (Inr (es, n), tr4)"
    and tr: "tr = ListRepositories # tr2 @ tr4 @ tl"
    and sv: "filter isSave tl =
             (if Some e = None
              then map (\<lambda>file. SaveMetadata (mkMetadata projectID file)) (filterFiles cfg fs)
              else [])"
    by blast
  from diffRepos_trace[OF d] have wk2: "list_all isWork tr2" by simp
  from processFiles_trace[OF pf] have wk4: "list_all isWork tr4" by simp
  from sv work_trace(2)[OF wk2] work_trace(2)[OF wk4] show ?thesis
    by (simp add: tr)
qed

text \<open>
  A run that returns without error has posted the checkpoint of every filtered file,
  whether or not processing produced embeddings for it.
\<close>

lemma successful_run_saves_every_filtered_file:
  assumes "SyncProject sv cfg projectID incremental = Some (Inr (result, None), tr)"
    and "listRepos sv = Inr repos"
  shows "filter isSave tr =
           map (\<lambda>file. SaveMetadata (mkMetadata projectID file))
             (filterFiles cfg (fst (diffRepos sv projectID incremental repos)))"
proof -
  obtain fs ws tr2 where d: "diffRepos sv projectID incremental repos = (fs, ws, tr2)"
    by (cases "diffRepos sv projectID incremental repos")
  from SyncProject_returned[OF assms d] obtain es n tr4 tl where
    pf: "processFiles sv cfg (filterFiles cfg fs) = Some (Inr (es, n), tr4)"
    and tr: "tr = ListRepositories # tr2 @ tr4 @ tl"
    and sv: "filter isSave tl =
             (if (None :: string option) = None
              then map (\<lambda>file. SaveMetadata (mkMetadata projectID file)) (filterFiles cfg fs)
              else [])"
    by blast
  from diffRepos_trace[OF d] have wk2: "list_all isWork tr2" by simp
  from processFiles_trace[OF pf] have wk4: "list_all isWork tr4" by simp
  from sv work_trace(2)[OF wk2] work_trace(2)[OF wk4] show ?thesis
    by (simp add: tr d)
qed

lemma run_partial:
  "SyncProject exServices exCfg ''p'' True = Some (Inr (exResult 1, None), exTracePartial)"
  by code_simp

lemma run_down:
  "SyncProject exServicesDown exCfg ''p'' True = Some (Inr (exResult 0, None), exTraceDown)"
  by code_simp

lemma run_removal:
  "SyncProject exServicesRemoval exCfg ''p'' True = Some (Inr (exResult 1, None), exTraceRemoval)"
  by code_simp

text \<open>
  C1. A run in which the embedding request for \<open>b.go\<close> fails: the only upsert of the run
  carries the one embedding of \<open>a.go\<close>, the run ends with success, and it has posted the
  checkpoint of \<open>b.go\<close> with the new commit \<open>c2\<close> and the status \<open>synced\<close>. Step 6
  posts a checkpoint for every filtered file, also for one that processing dropped.
\<close>

theorem C1_checkpoint_saved_for_failed_file:
  "SyncProject exServices exCfg ''p'' True = Some (Inr (exResult 1, None), exTracePartial)
   \<and> fileWarning exServices exB
       = Some (LogWarning ''Failed to generate embeddings for b.go: embedding failed'')
   \<and> filter isUpsert exTracePartial = [Upsert [exEmbeddingA]]
   \<and> EmbFilePath exEmbeddingA = ''a.go''
   \<and> SaveMetadata (mkMetadata ''p'' exB) \<in> set exTracePartial
   \<and> MetaFilePath (mkMetadata ''p'' exB) = ''b.go''
   \<and> LastCommitSHA (mkMetadata ''p'' exB) = ''c2''
   \<and> Status (mkMetadata ''p'' exB) = ''synced''"
proof -
  have "fileWarning exServices exB
       = Some (LogWarning ''Failed to generate embeddings for b.go: embedding failed'')"
    by code_simp
  moreover have "filter isUpsert exTracePartial = [Upsert [exEmbeddingA]]"
    by (simp add: exTracePartial_def)
  moreover have "SaveMetadata (mkMetadata ''p'' exB) \<in> set exTracePartial"
    by (simp add: exTracePartial_def)
  ultimately show ?thesis
    using run_partial by (simp add: exEmbeddingA_def mkMetadata_def exB_def)
qed

text \<open>
  C2. A removal passes the filter of the run: \<open>filterFiles\<close> keeps the removed
  \<open>old.go\<close>, which the document processor's \<open>ValidateDocument\<close> rejects for its change
  kind, and processing sends it to the chunker.
\<close>

theorem C2_removed_file_reaches_chunker:
  "ChangeType exRemoved = ''removed''
   \<and> filterFiles exCfg [exRemoved, exA] = [exRemoved, exA]
   \<and> \<not> ValidateDocument exRemoved (AllowedExtensions exCfg) (ExcludePatterns exCfg)
   \<and> processBatch exServicesRemoval exCfg (filterFiles exCfg [exRemoved, exA])
       = (Inr ([exEmbeddingA], 1), [Chunk exRemoved, Chunk exA, Embed [''package a'']])"
  by code_simp

text \<open>
  C3, as stated, fails: in a run whose change detector reports \<open>old.go\<close> as removed, the
  trace holds no delete call, and the checkpoint of \<open>old.go\<close> is posted, not deleted.
\<close>

theorem C3_removal_run_counterexample:
  "ChangeType exRemoved = ''removed''
   \<and> getChanges exServicesRemoval ''org/r'' ''c1'' = Inr [exRemoved, exA]
   \<and> SyncProject exServicesRemoval exCfg ''p'' True = Some (Inr (exResult 1, None), exTraceRemoval)
   \<and> filter isDelete exTraceRemoval = []
   \<and> SaveMetadata (mkMetadata ''p'' exRemoved) \<in> set exTraceRemoval"
proof -
  have "ChangeType exRemoved = ''removed''" by (simp add: exRemoved_def)
  moreover have "getChanges exServicesRemoval ''org/r'' ''c1'' = Inr [exRemoved, exA]"
    by (simp add: exServicesRemoval_def)
  moreover have "filter isDelete exTraceRemoval = []" by (simp add: exTraceRemoval_def)
  moreover have "SaveMetadata (mkMetadata ''p'' exRemoved) \<in> set exTraceRemoval"
    by (simp add: exTraceRemoval_def)
  ultimately show ?thesis using run_removal by simp
qed

text \<open>
  C3, amended. No run issues a delete-by-identifier call to the index writer or deletes a
  checkpoint, whatever the change records are: every run that ends, with a result or in
  a panic, has a trace without \<open>DeleteVectors\<close> and \<open>DeleteSyncMetadata\<close>.
\<close>

theorem C3_run_issues_no_delete:
  assumes "SyncProject sv cfg projectID incremental = Some (out, tr)"
  shows "list_all (\<lambda>x. \<not> isDelete x) tr"
proof (cases "listRepos sv")
  case (Inl e)
  with assms show ?thesis by (auto simp: SyncProject_def Let_def)
next
  case (Inr repos)
  obtain fs ws tr2 where d: "diffRepos sv projectID incremental repos = (fs, ws, tr2)"
    by (cases "diffRepos sv projectID incremental repos")
  from SyncProject_shape[OF assms Inr d] obtain r tr4 tl where
    pf: "processFiles sv cfg (filterFiles cfg fs) = Some (r, tr4)"
    and tr: "tr = ListRepositories # tr2 @ tr4 @ tl"
    and tl: "list_all (\<lambda>x. \<not> isDelete x) tl"
    by blast
  from diffRepos_trace[OF d] processFiles_trace[OF pf] tl show ?thesis
    by (simp add: tr work_trace)
qed

theorem C3_run_issues_no_delete_witness:
  "SyncProject exServicesRemoval exCfg ''p'' True = Some (Inr (exResult 1, None), exTraceRemoval)
   \<and> list_all (\<lambda>x. \<not> isDelete x) exTraceRemoval"
  using C3_run_issues_no_delete[OF run_removal] run_removal by simp

text \<open>
  C4, as stated, fails: when the embedding request fails for both attempted files, the
  run ends with an empty \<open>Warnings\<close> list, not with one entry per file.
\<close>

theorem C4_empty_Warnings_counterexample:
  "SyncProject exServicesDown exCfg ''p'' True = Some (Inr (exResult 0, None), exTraceDown)
   \<and> fileWarning exServicesDown exA
       = Some (LogWarning ''Failed to generate embeddings for a.go: embedding failed'')
   \<and> fileWarning exServicesDown exB
       = Some (LogWarning ''Failed to generate embeddings for b.go: embedding failed'')
   \<and> Warnings (exResult 0) = []"
proof -
  have "fileWarning exServicesDown exA
       = Some (LogWarning ''Failed to generate embeddings for a.go: embedding failed'')"
    by code_simp
  moreover have "fileWarning exServicesDown exB
       = Some (LogWarning ''Failed to generate embeddings for b.go: embedding failed'')"
    by code_simp
  ultimately show ?thesis using run_down by (simp add: exResult_def)
qed

text \<open>
  C4, amended. In a run that returns a result after listing the repositories,
  \<open>logger.Warning\<close> is called exactly once for every filtered file whose chunking or
  embedding fails, with a message naming the file's path, and not for the other files
  (as multisets: the goroutines of a batch may finish in any order). What these calls
  write is one line each when the logger is set with a level of \<open>WARNING\<close> or below,
  and nothing when the logger is unset or its level is \<open>ERROR\<close>. \<open>Warnings\<close> holds
  the entries of the failed repository diffs and nothing for a failed file. A file that
  fails contributes no embedding; the embeddings sent in the one upsert call of the run
  are, in some order, exactly those of the filtered files, each built from a chunk and
  its vector, and there is no upsert call when there are none. \<open>EmbeddingsGenerated\<close>
  is their number, one per chunk of the files that do not fail, and \<open>VectorsUpserted\<close>
  equals it when the run returns no error and is zero otherwise; so when every
  attempted file fails, both are zero and nothing is upserted.
\<close>

theorem C4_failures_logged_once:
  assumes "SyncProject sv cfg projectID incremental = Some (Inr (result, err), tr)"
    and "listRepos sv = Inr repos"
  shows "mset (filter isWarning tr) =
           mset (List.map_filter (fileWarning sv)
             (filterFiles cfg (fst (diffRepos sv projectID incremental repos))))
       \<and> mset (written defaultLogger tr) =
           mset (written defaultLogger (List.map_filter (fileWarning sv)
             (filterFiles cfg (fst (diffRepos sv projectID incremental repos)))))
       \<and> (defaultLogger = None \<or> (\<exists>l. defaultLogger = Some l \<and> logLevel l = ERROR)
            \<longrightarrow> written defaultLogger tr = [])
       \<and> Warnings result = List.map_filter (diffWarning sv projectID incremental) repos
       \<and> (\<forall>f. fileWarning sv f \<noteq> None \<longrightarrow> fileEmbeddings sv cfg f = [])
       \<and> (\<exists>embeddings.
             mset embeddings =
               mset (concat (map (fileEmbeddings sv cfg)
                 (filterFiles cfg (fst (diffRepos sv projectID incremental repos)))))
           \<and> filter isUpsert tr = (if embeddings = [] then [] else [Upsert embeddings])
           \<and> EmbeddingsGenerated result = length embeddings
           \<and> VectorsUpserted result = (if err = None then length embeddings else 0))
       \<and> EmbeddingsGenerated result =
           sum_list (map (fileChunks sv)
             (filter (\<lambda>f. fileWarning sv f = None)
                (filterFiles cfg (fst (diffRepos sv projectID incremental repos)))))"
proof -
  obtain fs ws tr2 where d: "diffRepos sv projectID incremental repos = (fs, ws, tr2)"
    by (cases "diffRepos sv projectID incremental repos")
  from SyncProject_returned[OF assms d] obtain es n tr4 tl where
    pf: "processFiles sv cfg (filterFiles cfg fs) = Some (Inr (es, n), tr4)"
    and tr: "tr = ListRepositories # tr2 @ tr4 @ tl"
    and tl: "filter isWarning tl = []"
    and res: "Warnings result = ws" "EmbeddingsGenerated result = length es"
      "VectorsUpserted result = (if err = None then length es else 0)"
    and up: "filter isUpsert tl = (if es = [] then [] else [Upsert es])"
    by blast
  note pb = processFiles_batch[OF pf]
  from processBatch_warnings[OF pb] have
    w: "filter isWarning tr4 = List.map_filter (fileWarning sv) (filterFiles cfg fs)"
    and l: "length es = sum_list (map (fileChunks sv)
              (filter (\<lambda>f. fileWarning sv f = None) (filterFiles cfg fs)))"
    by simp_all
  from processBatch_embeddings[OF pb] have
    e: "es = concat (map (fileEmbeddings sv cfg) (filterFiles cfg fs))" .
  from diffRepos_trace[OF d] have
    dw: "filter isWarning tr2 = []" "ws = List.map_filter (diffWarning sv projectID incremental) repos"
    and wk2: "list_all isWork tr2"
    by simp_all
  from processFiles_trace[OF pf] have wk4: "list_all isWork tr4" by simp
  have calls: "filter isWarning tr = List.map_filter (fileWarning sv) (filterFiles cfg fs)"
    by (simp add: tr tl w dw(1))
  have wl: "filter isWarning (List.map_filter (fileWarning sv) (filterFiles cfg fs))
              = filter isWarning tr"
    by (simp add: calls[symmetric])
  have c1: "mset (filter isWarning tr) =
           mset (List.map_filter (fileWarning sv)
             (filterFiles cfg (fst (diffRepos sv projectID incremental repos))))"
    using calls by (simp add: d)
  have "written defaultLogger tr
          = written defaultLogger (List.map_filter (fileWarning sv) (filterFiles cfg fs))"
    using written_filter[of defaultLogger tr]
      written_filter[of defaultLogger "List.map_filter (fileWarning sv) (filterFiles cfg fs)"] wl
    by simp
  then have c2: "mset (written defaultLogger tr) =
           mset (written defaultLogger (List.map_filter (fileWarning sv)
             (filterFiles cfg (fst (diffRepos sv projectID incremental repos)))))"
    by (simp add: d)
  have c3: "defaultLogger = None \<or> (\<exists>l. defaultLogger = Some l \<and> logLevel l = ERROR)
            \<longrightarrow> written defaultLogger tr = []"
    using written_silent by blast
  have c4: "Warnings result = List.map_filter (diffWarning sv projectID incremental) repos"
    using res(1) dw(2) by simp
  have c5: "\<forall>f. fileWarning sv f \<noteq> None \<longrightarrow> fileEmbeddings sv cfg f = []"
    using failed_file_no_embeddings by blast
  have u: "filter isUpsert tr = (if es = [] then [] else [Upsert es])"
    using up work_trace(3)[OF wk2] work_trace(3)[OF wk4] by (simp add: tr)
  have "mset es = mset (concat (map (fileEmbeddings sv cfg)
                 (filterFiles cfg (fst (diffRepos sv projectID incremental repos)))))"
    using e by (simp add: d)
  with u res(2,3) have c6: "\<exists>embeddings.
             mset embeddings =
               mset (concat (map (fileEmbeddings sv cfg)
                 (filterFiles cfg (fst (diffRepos sv projectID incremental repos)))))
           \<and> filter isUpsert tr = (if embeddings = [] then [] else [Upsert embeddings])
           \<and> EmbeddingsGenerated result = length embeddings
           \<and> VectorsUpserted result = (if err = None then length embeddings else 0)"
    by (intro exI[of _ es] conjI)
  have c7: "EmbeddingsGenerated result =
           sum_list (map (fileChunks sv)
             (filter (\<lambda>f. fileWarning sv f = None)
                (filterFiles cfg (fst (diffRepos sv projectID incremental repos)))))"
    using res(2) l by (simp add: d)
  from c1 c2 c3 c4 c5 c6 c7 show ?thesis by (intro conjI)
qed

theorem C4_failures_logged_once_witness:
  "SyncProject exServices exCfg ''p'' True = Some (Inr (exResult 1, None), exTracePartial)
   \<and> listRepos exServices = Inr [\<lparr>FullName = ''org/r''\<rparr>]
   \<and> written exLogger exTracePartial
        = [''[WARN] [orchestrator] Failed to generate embeddings for b.go: embedding failed'' @ [CHR 0x0A]]
   \<and> concat (map (fileEmbeddings exServices exCfg)
         (filterFiles exCfg (fst (diffRepos exServices ''p'' True [\<lparr>FullName = ''org/r''\<rparr>]))))
        = [exEmbeddingA]
   \<and> mset (filter isWarning exTracePartial) =
           mset (List.map_filter (fileWarning exServices)
             (filterFiles exCfg (fst (diffRepos exServices ''p'' True [\<lparr>FullName = ''org/r''\<rparr>]))))
   \<and> mset (written exLogger exTracePartial) =
           mset (written exLogger (List.map_filter (fileWarning exServices)
             (filterFiles exCfg (fst (diffRepos exServices ''p'' True [\<lparr>FullName = ''org/r''\<rparr>])))))
   \<and> written exLoggerQuiet exTracePartial = []
   \<and> Warnings (exResult 1) = List.map_filter (diffWarning exServices ''p'' True) [\<lparr>FullName = ''org/r''\<rparr>]
   \<and> fileWarning exServices exB \<noteq> None
   \<and> fileEmbeddings exServices exCfg exB = []
   \<and> (\<exists>embeddings.
             mset embeddings =
               mset (concat (map (fileEmbeddings exServices exCfg)
                 (filterFiles exCfg (fst (diffRepos exServices ''p'' True [\<lparr>FullName = ''org/r''\<rparr>])))))
           \<and> filter isUpsert exTracePartial = (if embeddings = [] then [] else [Upsert embeddings])
           \<and> EmbeddingsGenerated (exResult 1) = length embeddings
           \<and> VectorsUpserted (exResult 1) = (if (None :: string option) = None then length embeddings else 0))
   \<and> EmbeddingsGenerated (exResult 1) =
           sum_list (map (fileChunks exServices)
             (filter (\<lambda>f. fileWarning exServices f = None)
                (filterFiles exCfg (fst (diffRepos exServices ''p'' True [\<lparr>FullName = ''org/r''\<rparr>])))))"
proof -
  have r: "listRepos exServices = Inr [\<lparr>FullName = ''org/r''\<rparr>]"
    by (simp add: exServices_def)
  have w: "written exLogger exTracePartial
        = [''[WARN] [orchestrator] Failed to generate embeddings for b.go: embedding failed'' @ [CHR 0x0A]]"
    by code_simp
  have e: "concat (map (fileEmbeddings exServices exCfg)
         (filterFiles exCfg (fst (diffRepos exServices ''p'' True [\<lparr>FullName = ''org/r''\<rparr>]))))
        = [exEmbeddingA]"
    by code_simp
  have "fileWarning exServices exB
       = Some (LogWarning ''Failed to generate embeddings for b.go: embedding failed'')"
    by code_simp
  then have fb: "fileWarning exServices exB \<noteq> None" by simp
  note t = C4_failures_logged_once[OF run_partial r, of exLogger]
  note q = C4_failures_logged_once[OF run_partial r, of exLoggerQuiet]
  from q have quiet: "written exLoggerQuiet exTracePartial = []"
    by (simp add: exLoggerQuiet_def)
  from t fb have none: "fileEmbeddings exServices exCfg exB = []" by blast
  from t run_partial r w e quiet fb none show ?thesis
    by (intro conjI) (erule conjE | assumption)+
qed

end
